theory Spec2Isabelle
  imports Main "HOL-Library.Word" "HOL-Library.Sublist"
begin

unbundle bit_operations_syntax

section \<open>Data model of the BCI decoder\<close>

type_synonym byte = "8 word"
type_synonym u64 = "64 word"

text \<open>
  The global variables of the core that the decoder reads or writes: \<^verbatim>\<open>format_problem\<close>
  (a pointer to a string literal, null when no reason was recorded), \<^verbatim>\<open>logging_fmt\<close> (the
  format string handed to printf by the logging routine), kept as the bytes of the buffer
  it points to, terminator included, and \<^verbatim>\<open>size_limit\<close> (a \<^verbatim>\<open>long\<close>).
\<close>

record globals =
  format_problem :: "string option"
  logging_fmt :: "byte list"
  size_limit :: u64

text \<open>
  \<^verbatim>\<open>struct image_info\<close>. \<^verbatim>\<open>long\<close> and \<^verbatim>\<open>time_t\<close> are 64-bit words, read as signed
  with \<open>sint\<close>. The pixel buffer is the list of the \<^verbatim>\<open>num_bytes\<close> raster bytes of the
  allocation; the cleanup pointer is null throughout the decoder and is left out.
\<close>

record image_info =
  width :: u64
  height :: u64
  create_time :: u64
  pixels :: "byte list"

text \<open>
  A stdio stream is the list of the bytes not yet read. \<^verbatim>\<open>fread(buf, n, 1, fh)\<close> returns 1
  and advances by \<open>n\<close> bytes when \<open>n\<close> bytes are left; otherwise it returns 0, having
  consumed what was left.
\<close>

definition fread_item :: "nat \<Rightarrow> byte list \<Rightarrow> (byte list \<times> byte list) option" where
  "fread_item n fh = (if n \<le> length fh then Some (take n fh, drop n fh) else None)"

subsection \<open>BigEndianReader\<close>

text \<open>The loop \<^verbatim>\<open>for (i = 7; i >= 0; i--) { x |= (uint64_t)bytes[i] << pos; pos += 8; }\<close>.\<close>

definition u64_of_bytes :: "byte list \<Rightarrow> u64" where
  "u64_of_bytes bytes =
     fold (\<lambda>i x. x OR push_bit (8 * (7 - i)) (ucast (bytes ! i))) [7, 6, 5, 4, 3, 2, 1, 0] 0"

definition read_u64_bigendian :: "byte list \<Rightarrow> globals \<Rightarrow> u64 \<times> byte list \<times> globals" where
  "read_u64_bigendian fh g =
     (case fread_item 8 fh of
        None \<Rightarrow> (- 1, [], g\<lparr>format_problem := Some ''short read of u64''\<rparr>)
      | Some (bytes, fh') \<Rightarrow> (u64_of_bytes bytes, fh', g))"

subsection \<open>TagSection parser\<close>

definition tag_DATA :: "byte list" where "tag_DATA = [0x44, 0x41, 0x54, 0x41]"
definition tag_TIME :: "byte list" where "tag_TIME = [0x54, 0x49, 0x4D, 0x45]"
definition tag_FRMT :: "byte list" where "tag_FRMT = [0x46, 0x52, 0x4D, 0x54]"

lemma read_u64_bigendian_length:
  "read_u64_bigendian fh g = (x, fh', g') \<Longrightarrow> length fh' \<le> length fh"
  by (auto simp: read_u64_bigendian_def fread_item_def split: option.splits if_splits)

text \<open>
  \<^verbatim>\<open>process_tagged_data\<close>: the result is the returned flag (1 as \<open>True\<close>), the stream,
  the image information and the globals. \<^verbatim>\<open>xmalloc(size + 1)\<close> for a \<^verbatim>\<open>FRMT\<close> payload is
  taken to succeed; the local \<^verbatim>\<open>size\<close> is written \<open>sz\<close>.
\<close>

function process_tagged_data ::
  "byte list \<Rightarrow> image_info \<Rightarrow> globals \<Rightarrow> bool \<times> byte list \<times> image_info \<times> globals" where
  "process_tagged_data fh info g =
     (case fread_item 4 fh of
        None \<Rightarrow> (False, [], info, g\<lparr>format_problem := Some ''short read of tag''\<rparr>)
      | Some (ident, fh1) \<Rightarrow>
          if ident = tag_DATA then (True, fh1, info, g)
          else
            (case read_u64_bigendian fh1 g of
               (sz, fh2, g2) \<Rightarrow>
                 if sz = - 1 then (False, fh2, info, g2)
                 else if sz > 2 ^ 40 then
                   (False, fh2, info, g2\<lparr>format_problem := Some ''tag too large''\<rparr>)
                 else if ident = tag_TIME then
                   (if sz \<noteq> 8 then
                      (False, fh2, info, g2\<lparr>format_problem := Some ''wrong size for TIME''\<rparr>)
                    else
                      (case read_u64_bigendian fh2 g2 of
                         (t, fh3, g3) \<Rightarrow>
                           process_tagged_data fh3 (info\<lparr>create_time := t\<rparr>) g3))
                 else if ident = tag_FRMT then
                   (case fread_item (unat sz) fh2 of
                      None \<Rightarrow>
                        (False, [], info, g2\<lparr>format_problem := Some ''short read of format''\<rparr>)
                    | Some (fmt_buf, fh3) \<Rightarrow>
                        process_tagged_data fh3 info (g2\<lparr>logging_fmt := fmt_buf @ [0]\<rparr>))
                 else
                   (False, fh2, info, g2\<lparr>format_problem := Some ''unrecognized tag''\<rparr>)))"
  by pat_completeness auto
termination
  apply (relation "measure (\<lambda>(fh, info, g). length fh)")
    apply simp
   apply (auto simp: fread_item_def split: if_splits dest!: read_u64_bigendian_length [OF sym])
  done

declare process_tagged_data.simps [simp del]

subsection \<open>The logging routine\<close>

text \<open>A C string literal as the bytes of its array, terminator included.\<close>

definition c_str :: "string \<Rightarrow> byte list" where
  "c_str s = map of_char s @ [0]"

text \<open>
  The state of the globals when the program starts: \<^verbatim>\<open>format_problem = 0\<close> and the
  initialisers of \<^verbatim>\<open>logging_fmt\<close> and \<^verbatim>\<open>size_limit\<close>.
\<close>

definition initial_globals :: globals where
  "initial_globals =
     \<lparr>format_problem = None,
      logging_fmt = c_str ''Displaying image of width %ld and height %ld from %s'',
      size_limit = 26754\<rparr>"




subsection \<open>Outcomes and memory\<close>

text \<open>
  Beside returning, the decoder can leave its defined behaviour in three ways: \<^verbatim>\<open>xmalloc\<close>
  exits the process when the allocation fails, a store can fall outside the raster (or a
  signed counter overflow), and an \<^verbatim>\<open>assert\<close> can fail. A reader of pixel data returns 1
  (\<open>Ok\<close>), or 0 after setting \<^verbatim>\<open>format_problem\<close> to a message (\<open>Failed\<close>).
\<close>

datatype fault = Out_of_memory | Undefined_behaviour | Assertion_failed

datatype 'a result = Ok 'a | Failed string | Fault fault

definition bind_result :: "'a result \<Rightarrow> ('a \<Rightarrow> 'b result) \<Rightarrow> 'b result" where
  "bind_result m f = (case m of Ok x \<Rightarrow> f x | Failed msg \<Rightarrow> Failed msg | Fault u \<Rightarrow> Fault u)"

lemma bind_result_cong [fundef_cong]:
  "m = m' \<Longrightarrow> (\<And>x. m' = Ok x \<Longrightarrow> f x = f' x) \<Longrightarrow> bind_result m f = bind_result m' f'"
  by (simp add: bind_result_def split: result.splits)

lemma bind_result_simps [simp]:
  "bind_result (Ok x) f = f x"
  "bind_result (Failed msg) f = Failed msg"
  "bind_result (Fault u) f = Fault u"
  by (simp_all add: bind_result_def)

text \<open>
  A store of the bytes \<open>bs\<close> at offset \<open>off\<close> of the raster; \<open>None\<close> when it does not lie
  inside the raster. \<^verbatim>\<open>fread\<close> into the raster stores the bytes it could read, and the
  caller records \<open>msg\<close> when they were fewer than asked for.
\<close>

definition write_bytes :: "byte list \<Rightarrow> nat \<Rightarrow> byte list \<Rightarrow> byte list option" where
  "write_bytes buf off bs =
     (if bs = [] then Some buf
      else if off + length bs \<le> length buf
        then Some (take off buf @ bs @ drop (off + length bs) buf)
      else None)"

definition fread_into ::
  "nat \<Rightarrow> string \<Rightarrow> byte list \<Rightarrow> nat \<Rightarrow> byte list \<Rightarrow> (byte list \<times> byte list) result" where
  "fread_into n msg fh off buf =
     (case write_bytes buf off (take n fh) of
        None \<Rightarrow> Fault Undefined_behaviour
      | Some buf' \<Rightarrow> if length fh < n then Failed msg else Ok (drop n fh, buf'))"

text \<open>
  \<^verbatim>\<open>int num_bytes = 3 * width * height\<close>: the product of the two \<^verbatim>\<open>long\<close> values wraps
  modulo \<open>2^64\<close> and is truncated to 32 bits. \<^verbatim>\<open>xmalloc\<close> is asked for \<^verbatim>\<open>num_bytes\<close> plus
  56 bytes (alignment and trailer), converted to \<^verbatim>\<open>size_t\<close>: below \<open>-56\<close> the request exceeds
  \<open>2^63\<close> bytes and fails, from \<open>-56\<close> to \<open>-1\<close> the trailer is placed before the block, and
  otherwise the raster is the first \<^verbatim>\<open>num_bytes\<close> bytes of the block. Its initial contents are
  not read before they are written; they are modelled as zeros.
\<close>

definition num_bytes_of :: "u64 \<Rightarrow> u64 \<Rightarrow> int" where
  "num_bytes_of w h = sint (ucast (3 * w * h) :: 32 word)"

definition alloc_pixels :: "int \<Rightarrow> fault + byte list" where
  "alloc_pixels num_bytes =
     (if num_bytes < - 56 then Inl Out_of_memory
      else if num_bytes < 0 then Inl Undefined_behaviour
      else Inr (replicate (nat num_bytes) 0))"

subsection \<open>RawDecoder\<close>

text \<open>
  \<^verbatim>\<open>read_raw_data\<close>: the loop over groups of 8 pixels, the loop over the pixels left over
  and the loop over the rows, with \<open>p\<close> the offset of the write pointer in the raster. The
  \<^verbatim>\<open>int\<close> counters \<open>row\<close> and \<open>col\<close> must stay below \<open>2^31\<close>.
\<close>

function raw_groups ::
  "int \<Rightarrow> int \<Rightarrow> nat \<Rightarrow> byte list \<Rightarrow> byte list \<Rightarrow> (int \<times> nat \<times> byte list \<times> byte list) result" where
  "raw_groups w col p fh px =
     (if w < - (2 ^ 63) + 8 then Fault Undefined_behaviour
      else if col < w - 8 then
        bind_result (fread_into (3 * 8) ''short read of raw data'' fh p px) (\<lambda>(fh', px').
          if 2 ^ 31 \<le> col + 8 then Fault Undefined_behaviour
          else raw_groups w (col + 8) (p + 3 * 8) fh' px')
      else Ok (col, p, fh, px))"
  by pat_completeness auto
termination
  by (relation "measure (\<lambda>(w, col, p, fh, px). nat (w - col))") auto

declare raw_groups.simps [simp del]

function raw_singles ::
  "int \<Rightarrow> int \<Rightarrow> nat \<Rightarrow> byte list \<Rightarrow> byte list \<Rightarrow> (nat \<times> byte list \<times> byte list) result" where
  "raw_singles w col p fh px =
     (if col < w then
        bind_result (fread_into 3 ''short read of raw data'' fh p px) (\<lambda>(fh', px').
          if 2 ^ 31 \<le> col + 1 then Fault Undefined_behaviour
          else raw_singles w (col + 1) (p + 3) fh' px')
      else Ok (p, fh, px))"
  by pat_completeness auto
termination
  by (relation "measure (\<lambda>(w, col, p, fh, px). nat (w - col))") auto

declare raw_singles.simps [simp del]

function raw_rows ::
  "int \<Rightarrow> int \<Rightarrow> int \<Rightarrow> nat \<Rightarrow> byte list \<Rightarrow> byte list \<Rightarrow> (byte list \<times> byte list) result" where
  "raw_rows w h row p fh px =
     (if row < h then
        bind_result (raw_groups w 0 p fh px) (\<lambda>(col, p1, fh1, px1).
        bind_result (raw_singles w col p1 fh1 px1) (\<lambda>(p2, fh2, px2).
          if 2 ^ 31 \<le> row + 1 then Fault Undefined_behaviour
          else raw_rows w h (row + 1) p2 fh2 px2))
      else Ok (fh, px))"
  by pat_completeness auto
termination
  by (relation "measure (\<lambda>(w, h, row, p, fh, px). nat (h - row))") auto

declare raw_rows.simps [simp del]

definition read_raw_data :: "byte list \<Rightarrow> image_info \<Rightarrow> (byte list \<times> image_info) result" where
  "read_raw_data fh info =
     bind_result (raw_rows (sint (width info)) (sint (height info)) 0 0 fh (pixels info))
       (\<lambda>(fh', px'). Ok (fh', info\<lparr>pixels := px'\<rparr>))"

definition parse_bcraw :: "byte list \<Rightarrow> globals \<Rightarrow> fault + (image_info option \<times> globals)" where
  "parse_bcraw fh g =
     (case fread_item 8 fh of
        None \<Rightarrow> Inr (None, g\<lparr>format_problem := Some ''short read of flags''\<rparr>)
      | Some (flags, fh1) \<Rightarrow>
          if flags ! 0 \<noteq> 0 \<or> flags ! 1 \<noteq> 0 \<or> flags ! 2 \<noteq> 0 \<or> flags ! 3 \<noteq> 0 \<or>
             flags ! 4 \<noteq> 0 \<or> flags ! 5 \<noteq> 0 \<or> flags ! 6 \<noteq> 0
          then Inr (None, g\<lparr>format_problem := Some ''reserved flags should be 0''\<rparr>)
          else if flags ! 7 \<noteq> 8
          then Inr (None, g\<lparr>format_problem := Some ''unsupported depth''\<rparr>)
          else
            (case read_u64_bigendian fh1 g of
               (w, fh2, g2) \<Rightarrow>
                 if w = - 1 then Inr (None, g2)
                 else
                   (case read_u64_bigendian fh2 g2 of
                      (h, fh3, g3) \<Rightarrow>
                        if h = - 1 then Inr (None, g3)
                        else
                          (case alloc_pixels (num_bytes_of w h) of
                             Inl u \<Rightarrow> Inl u
                           | Inr px \<Rightarrow>
                               (case process_tagged_data fh3
                                   \<lparr>width = w, height = h, create_time = - 1, pixels = px\<rparr> g3 of
                                  (is_ok, fh4, info_footer, g4) \<Rightarrow>
                                    if \<not> is_ok then Inr (None, g4)
                                    else
                                      (case read_raw_data fh4 info_footer of
                                         Ok (fh5, info) \<Rightarrow> Inr (Some info, g4)
                                       | Failed msg \<Rightarrow>
                                           Inr (None, g4\<lparr>format_problem := Some msg\<rparr>)
                                       | Fault u \<Rightarrow> Inl u))))))"

subsection \<open>ProgressiveDecoder\<close>

text \<open>
  \<^verbatim>\<open>read_prog_data\<close>, step 1: the two \<^verbatim>\<open>do ... while\<close> statements with \<^verbatim>\<open>row += 4\<close> (started at
  row 0 and at row 2) and the one with \<^verbatim>\<open>row += 2\<close> (started at row 1). Each reads one item
  of \<^verbatim>\<open>width\<close> bytes to \<^verbatim>\<open>p + row * 3 * width\<close> and tests \<^verbatim>\<open>row < height\<close> afterwards.
\<close>

function prog_pass4 ::
  "int \<Rightarrow> int \<Rightarrow> int \<Rightarrow> byte list \<Rightarrow> byte list \<Rightarrow> (byte list \<times> byte list) result" where
  "prog_pass4 w h row fh px =
     bind_result (fread_into (nat w) ''short read of row'' fh (nat (row * 3 * w)) px)
       (\<lambda>(fh', px').
          if row + 4 < h then prog_pass4 w h (row + 4) fh' px' else Ok (fh', px'))"
  by pat_completeness auto
termination
  by (relation "measure (\<lambda>(w, h, row, fh, px). nat (h - row))") auto

declare prog_pass4.simps [simp del]

function prog_pass2 ::
  "int \<Rightarrow> int \<Rightarrow> int \<Rightarrow> byte list \<Rightarrow> byte list \<Rightarrow> (byte list \<times> byte list) result" where
  "prog_pass2 w h row fh px =
     bind_result (fread_into (nat w) ''short read of row'' fh (nat (row * 3 * w)) px)
       (\<lambda>(fh', px').
          if row + 2 < h then prog_pass2 w h (row + 2) fh' px' else Ok (fh', px'))"
  by pat_completeness auto
termination
  by (relation "measure (\<lambda>(w, h, row, fh, px). nat (h - row))") auto

declare prog_pass2.simps [simp del]

text \<open>
  Step 2, the inner loop \<^verbatim>\<open>for (col = width - 1; col >= 0; col--)\<close> on the row that starts
  at offset \<open>row_p\<close>: the argument \<open>Suc col\<close> is the number of columns still to expand, so
  that column \<open>col\<close> is expanded next. A load or store outside the raster is undefined.
\<close>

fun expand_cols :: "nat \<Rightarrow> nat \<Rightarrow> byte list \<Rightarrow> byte list result" where
  "expand_cols row_p 0 px = Ok px"
| "expand_cols row_p (Suc col) px =
     (if length px \<le> row_p + col then Fault Undefined_behaviour
      else
        (let packed = px ! (row_p + col) in
         if 216 \<le> packed then Failed ''invalid packed byte''
         else if length px \<le> row_p + 3 * col + 2 then Fault Undefined_behaviour
         else
           (let b = packed mod 6;
                packed1 = packed div 6;
                g = packed1 mod 6;
                packed2 = packed1 div 6;
                r = packed2
            in expand_cols row_p col
                 (px[row_p + 3 * col := 51 * r, row_p + 3 * col + 1 := 51 * g,
                     row_p + 3 * col + 2 := 51 * b]))))"

function expand_rows :: "int \<Rightarrow> int \<Rightarrow> int \<Rightarrow> byte list \<Rightarrow> byte list result" where
  "expand_rows w h row px =
     (if row < h then
        bind_result (expand_cols (nat (row * 3 * w)) (nat w) px)
          (\<lambda>px'. expand_rows w h (row + 1) px')
      else Ok px)"
  by pat_completeness auto
termination
  by (relation "measure (\<lambda>(w, h, row, px). nat (h - row))") auto

declare expand_rows.simps [simp del]

definition read_prog_data :: "byte list \<Rightarrow> image_info \<Rightarrow> (byte list \<times> image_info) result" where
  "read_prog_data fh info =
     (let w = sint (width info); h = sint (height info) in
      bind_result (prog_pass4 w h 0 fh (pixels info)) (\<lambda>(fh1, px1).
      bind_result (prog_pass4 w h 2 fh1 px1) (\<lambda>(fh2, px2).
      bind_result (prog_pass2 w h 1 fh2 px2) (\<lambda>(fh3, px3).
      bind_result (expand_rows w h 0 px3) (\<lambda>px4.
        Ok (fh3, info\<lparr>pixels := px4\<rparr>))))))"

definition parse_bcprog :: "byte list \<Rightarrow> globals \<Rightarrow> fault + (image_info option \<times> globals)" where
  "parse_bcprog fh g =
     (case fread_item 8 fh of
        None \<Rightarrow> Inr (None, g)
      | Some (flags, fh1) \<Rightarrow>
          if flags ! 0 \<noteq> 0 \<or> flags ! 1 \<noteq> 0 \<or> flags ! 2 \<noteq> 0 \<or> flags ! 3 \<noteq> 0 \<or>
             flags ! 4 \<noteq> 0 \<or> flags ! 5 \<noteq> 0
          then Inr (None, g\<lparr>format_problem := Some ''reserved flags should be 0''\<rparr>)
          else if flags ! 6 \<noteq> 0x01
          then Inr (None, g\<lparr>format_problem := Some ''unsupported passes number''\<rparr>)
          else if flags ! 7 \<noteq> 0xd8
          then Inr (None, g\<lparr>format_problem := Some ''unsupported color depth''\<rparr>)
          else
            (case read_u64_bigendian fh1 g of
               (w, fh2, g2) \<Rightarrow>
                 if w = - 1 then Inr (None, g2)
                 else
                   (case read_u64_bigendian fh2 g2 of
                      (h, fh3, g3) \<Rightarrow>
                        if h = - 1 then Inr (None, g3)
                        else if sint h < 2 \<or> sint w < 1
                        then Inr (None, g3\<lparr>format_problem := Some ''size too small''\<rparr>)
                        else if sint h > 600 \<or> sint w > 800
                        then Inr (None, g3\<lparr>format_problem := Some ''size too large''\<rparr>)
                        else
                          (case alloc_pixels (num_bytes_of w h) of
                             Inl u \<Rightarrow> Inl u
                           | Inr px \<Rightarrow>
                               (case process_tagged_data fh3
                                   \<lparr>width = w, height = h, create_time = - 1, pixels = px\<rparr> g3 of
                                  (is_ok, fh4, info_footer, g4) \<Rightarrow>
                                    if \<not> is_ok then Inr (None, g4)
                                    else
                                      (case read_prog_data fh4 info_footer of
                                         Ok (fh5, info) \<Rightarrow> Inr (Some info, g4)
                                       | Failed msg \<Rightarrow>
                                           Inr (None, g4\<lparr>format_problem := Some msg\<rparr>)
                                       | Fault u \<Rightarrow> Inl u))))))"




subsection \<open>EntropyDecoder\<close>

definition FLATBUF :: nat where "FLATBUF = 100"
definition EXPANSION :: nat where "EXPANSION = 8"

record flat_decode_state =
  reg :: "32 word"
  reg_size :: nat
  last :: byte

text \<open>\<^verbatim>\<open>unsigned char next = last + diff\<close>, with \<open>diff\<close> an \<^verbatim>\<open>int\<close>.\<close>

definition add_diff :: "byte \<Rightarrow> int \<Rightarrow> byte" where
  "add_diff l diff = word_of_int (uint l + diff)"

text \<open>
  \<^verbatim>\<open>for (i = 0; i < num; i++) { next = last + diff; *q++ = next; last = next; }\<close>: the
  samples written and the final \<open>last\<close>.
\<close>

fun diff_run :: "nat \<Rightarrow> byte \<Rightarrow> int \<Rightarrow> byte list \<times> byte" where
  "diff_run 0 l diff = ([], l)"
| "diff_run (Suc n) l diff =
     (let next = add_diff l diff in
      case diff_run n next diff of (samples, l') \<Rightarrow> (next # samples, l'))"

text \<open>
  The tree of branches of \<^verbatim>\<open>decode_flat\<close> on the register: the length of the matched
  codeword, the samples it stands for and the new \<open>last\<close>; \<open>None\<close> where the source has
  \<^verbatim>\<open>assert(0)\<close> or its assertion on the top bit fails. The test against the padding bits
  comes after, in the loop.
\<close>

definition decode_codeword :: "32 word \<Rightarrow> byte \<Rightarrow> (nat \<times> byte list \<times> byte) option" where
  "decode_codeword r l =
     (if r AND 0xc0000000 = 0 then
        (if r AND 0xe0000000 = 0 then Some (3, replicate 2 l, l)
         else if r AND 0xf0000000 = 0x20000000 then Some (4, replicate 3 l, l)
         else if r AND 0xf8000000 = 0x30000000 then Some (5, replicate 4 l, l)
         else if r AND 0xf8000000 = 0x38000000 then
           Some (7, replicate (5 + unat (drop_bit 25 r AND 3)) l, l)
         else None)
      else if r AND 0xc0000000 = 0x40000000 then
        (let num = (if r AND 0x20000000 \<noteq> 0 then 3 else 2);
             amt = uint (drop_bit 26 (r AND 0x0c000000));
             diff = (if r AND 0x10000000 \<noteq> 0 then - 4 + amt else 1 + amt)
         in case diff_run num l diff of (samples, l') \<Rightarrow> Some (6, samples, l'))
      else if r AND 0x80000000 \<noteq> 0x80000000 then None
      else if r AND 0xe0000000 = 0x80000000 then Some (3, [add_diff l 0], add_diff l 0)
      else if r AND 0xe0000000 = 0xa0000000 then
        (if r AND 0xf0000000 = 0xa0000000 then Some (4, [add_diff l 1], add_diff l 1)
         else Some (4, [add_diff l (- 1)], add_diff l (- 1)))
      else if r AND 0xf0000000 = 0xc0000000 then
        (let diff = [2, 3, - 3, - 2] ! unat (drop_bit 26 (r AND 0x0c000000))
         in Some (6, [add_diff l diff], add_diff l diff))
      else if r AND 0xf0000000 = 0xd0000000 then
        (let diff = [4, 5, 6, 7, - 7, - 6, - 5, - 4] ! unat (drop_bit 25 (r AND 0x0e000000))
         in Some (7, [add_diff l diff], add_diff l diff))
      else if r AND 0xf0000000 = 0xe0000000 then
        (let subtype = unat (drop_bit 25 (r AND 0x0e000000));
             mask = 2 ^ (3 + subtype div 2) - 1;
             pos = 22 - subtype div 2;
             amt = uint (drop_bit pos r AND mask);
             diff = [8, - 15, 16, - 31, 32, - 63, 64, - 127] ! subtype + amt
         in Some (10 + subtype div 2, [add_diff l diff], add_diff l diff))
      else if r AND 0xf0000000 = 0xf0000000 then
        Some (7, [add_diff l (- 128)], add_diff l (- 128))
      else None)"

text \<open>
  The loop \<^verbatim>\<open>while (reg_size < 13)\<close> that shifts bytes of \<^verbatim>\<open>comp_buf\<close> into the register.
  \<^verbatim>\<open>comp_buf\<close> is the \<open>comp_size\<close> bytes of input and the two zero bytes; a read behind them
  is a read of an uninitialised byte.
\<close>

function fill_reg ::
  "byte list \<Rightarrow> nat \<Rightarrow> nat \<Rightarrow> 32 word \<Rightarrow> nat \<Rightarrow> nat \<Rightarrow> (nat \<times> 32 word \<times> nat \<times> nat) result" where
  "fill_reg comp_buf comp_size p r rsize padding_bits =
     (if rsize < 13 then
        (if length comp_buf \<le> p then Fault Undefined_behaviour
         else
           fill_reg comp_buf comp_size (p + 1)
             (r OR push_bit ((32 - 8) - rsize) (ucast (comp_buf ! p)))
             (rsize + 8)
             (if comp_size \<le> p then padding_bits + 8 else padding_bits))
      else Ok (p, r, rsize, padding_bits))"
  by pat_completeness auto
termination
  by (relation "measure (\<lambda>(comp_buf, comp_size, p, r, rsize, padding_bits). 13 - rsize)") auto

declare fill_reg.simps [simp del]

lemma decode_codeword_codelen:
  "decode_codeword r l = Some (codelen, samples, l') \<Longrightarrow> 3 \<le> codelen \<and> codelen \<le> 13"
proof -
  have "unat (drop_bit 25 (r AND 0x0e000000)) div 2 \<le> 3"
  proof -
    have "unat (r AND 0x0e000000) \<le> unat (0x0e000000 :: 32 word)"
      unfolding word_le_nat_alt [symmetric] by (rule word_and_le1)
    then have "unat (r AND 0x0e000000) div 2 ^ 25 \<le> unat (0x0e000000 :: 32 word) div 2 ^ 25"
      by (rule div_le_mono)
    then have "unat (drop_bit 25 (r AND 0x0e000000)) \<le> 7"
      by (simp add: unat_drop_bit_eq drop_bit_eq_div unat_div)
    then show ?thesis by simp
  qed
  then show "decode_codeword r l = Some (codelen, samples, l') \<Longrightarrow> ?thesis"
    by (auto simp: decode_codeword_def Let_def split: if_splits prod.splits)
qed

lemma fill_reg_Ok:
  "fill_reg comp_buf comp_size p r rsize padding_bits = Ok (p', r', rsize', padding') \<Longrightarrow>
   8 * (length comp_buf - p') + rsize' = 8 * (length comp_buf - p) + rsize \<and> 13 \<le> rsize'"
proof (induction comp_buf comp_size p r rsize padding_bits rule: fill_reg.induct)
  case (1 comp_buf comp_size p r rsize padding_bits)
  show ?case
  proof (cases "rsize < 13")
    case False
    with "1.prems" show ?thesis by (simp add: fill_reg.simps)
  next
    case True
    with "1.prems" have lt: "p < length comp_buf"
      by (subst (asm) fill_reg.simps) (simp split: if_splits)
    with True "1.prems" have "fill_reg comp_buf comp_size (p + 1)
             (r OR push_bit ((32 - 8) - rsize) (ucast (comp_buf ! p)))
             (rsize + 8)
             (if comp_size \<le> p then padding_bits + 8 else padding_bits) = Ok (p', r', rsize', padding')"
      by (subst (asm) fill_reg.simps) simp
    from "1.IH" [OF True _ this] lt show ?thesis
      by auto
  qed
qed

text \<open>
  The main loop of \<^verbatim>\<open>decode_flat\<close>. \<open>q\<close> is the contents of \<^verbatim>\<open>uncomp_buf\<close> written so far, so
  that \<^verbatim>\<open>num_pixels\<close> is its length; the buffer has room for \<open>EXPANSION * (FLATBUF + 1)\<close>
  bytes. The comparison \<^verbatim>\<open>codelen > (reg_size - padding_bits)\<close> is one of unsigned 32-bit
  values. A result is the state at the end of the loop: by \<^verbatim>\<open>break\<close> or by its condition.
\<close>

function decode_loop ::
  "byte list \<Rightarrow> nat \<Rightarrow> int \<Rightarrow> nat \<Rightarrow> 32 word \<Rightarrow> nat \<Rightarrow> nat \<Rightarrow> byte \<Rightarrow> byte list \<Rightarrow>
   (nat \<times> 32 word \<times> nat \<times> byte \<times> byte list) result" where
  "decode_loop comp_buf comp_size max_pixels p r rsize padding_bits l q =
     (if int (length q) < max_pixels \<and> p < comp_size + 2 then
        bind_result (fill_reg comp_buf comp_size p r rsize padding_bits)
          (\<lambda>(p1, r1, rsize1, padding1).
             case decode_codeword r1 l of
               None \<Rightarrow> Fault Assertion_failed
             | Some (codelen, samples, l') \<Rightarrow>
                 if int codelen > (int rsize1 - int padding1) mod 2 ^ 32
                 then Ok (p1, r1, rsize1, l, q)
                 else if EXPANSION * (FLATBUF + 1) < length q + length samples
                 then Fault Undefined_behaviour
                 else
                   decode_loop comp_buf comp_size max_pixels p1 (push_bit codelen r1)
                     (rsize1 - codelen) padding1 l' (q @ samples))
      else Ok (p, r, rsize, l, q))"
  by pat_completeness auto
termination
proof (relation "measure (\<lambda>(comp_buf, comp_size, max_pixels, p, r, rsize, padding_bits, l, q).
    8 * (length comp_buf - p) + rsize)", goal_cases)
  case 1
  show ?case by simp
next
  case (2 comp_buf comp_size max_pixels p r rsize padding_bits l q x xa y xb ya xc yb x2 xd yc xe yd)
  then have f: "fill_reg comp_buf comp_size p r rsize padding_bits = Ok (xa, xb, xc, yb)"
    and d: "decode_codeword xb l = Some (xd, xe, yd)"
    by auto
  from fill_reg_Ok [OF f] decode_codeword_codelen [OF d]
  show ?case by (simp del: One_nat_def) linarith
qed

declare decode_loop.simps [simp del]

text \<open>
  The loop that puts whole bytes back: \<^verbatim>\<open>while (reg_size >= 8)\<close>. The pointer \<open>p\<close> is kept
  as an integer offset into \<^verbatim>\<open>comp_buf\<close>.
\<close>

function unget :: "int \<Rightarrow> 32 word \<Rightarrow> nat \<Rightarrow> int \<times> 32 word \<times> nat" where
  "unget p r rsize =
     (if 8 \<le> rsize then
        unget (p - 1) (r AND NOT (push_bit (32 - rsize) 0xff)) (rsize - 8)
      else (p, r, rsize))"
  by pat_completeness auto
termination
  by (relation "measure (\<lambda>(p, r, rsize). rsize)") auto

declare unget.simps [simp del]

text \<open>
  \<^verbatim>\<open>decode_flat\<close>: from the buffer \<open>comp_p\<close>, its size, the bound \<open>max_pixels\<close> and the state,
  to the number of compressed bytes consumed, the samples written to \<^verbatim>\<open>uncomp_p\<close> and the
  new state.
\<close>

definition decode_flat ::
  "byte list \<Rightarrow> nat \<Rightarrow> int \<Rightarrow> flat_decode_state \<Rightarrow> (int \<times> byte list \<times> flat_decode_state) result" where
  "decode_flat comp_p comp_size max_pixels state =
     (if FLATBUF < comp_size then Fault Assertion_failed
      else
        bind_result
          (decode_loop (take comp_size comp_p @ [0, 0]) comp_size max_pixels 0
             (reg state) (reg_size state) 0 (last state) [])
          (\<lambda>(p, r, rsize, l, q).
             case unget (int p) r rsize of
               (p', r', rsize') \<Rightarrow>
                 if int (length q) > max_pixels + int EXPANSION then Fault Assertion_failed
                 else
                   Ok (min (int comp_size) p', q, \<lparr>reg = r', reg_size = rsize', last = l\<rparr>)))"

text \<open>
  \<^verbatim>\<open>read_flat_data\<close>. \<open>buf\<close> is the filled part of the input buffer (so that
  \<^verbatim>\<open>buf_read_pos\<close> is its length) and \<open>row\<close> the offset of the row in the raster. The loop
  that copies the samples of one call into the row, with its assertion \<^verbatim>\<open>x < info->width\<close>:
\<close>

fun write_samples ::
  "nat \<Rightarrow> int \<Rightarrow> nat \<Rightarrow> int \<Rightarrow> byte list \<Rightarrow> byte list \<Rightarrow> (int \<times> byte list) result" where
  "write_samples channel w row x [] px = Ok (x, px)"
| "write_samples channel w row x (s # ss) px =
     (if \<not> x < w then Fault Assertion_failed
      else if 2 ^ 31 \<le> 3 * x + int channel then Fault Undefined_behaviour
      else if length px \<le> row + nat (3 * x + int channel) then Fault Undefined_behaviour
      else write_samples channel w row (x + 1) ss (px[row + nat (3 * x + int channel) := s]))"

lemma write_samples_x:
  "write_samples channel w row x samples px = Ok (x', px') \<Longrightarrow> x' = x + int (length samples)"
proof (induction samples arbitrary: x px)
  case Nil
  then show ?case by simp
next
  case (Cons s ss)
  from Cons.prems have "write_samples channel w row (x + 1) ss
      (px[row + nat (3 * x + int channel) := s]) = Ok (x', px')"
    by (simp split: if_splits)
  from Cons.IH [OF this] show ?case by simp
qed

text \<open>
  The loop \<^verbatim>\<open>while (x < info->width)\<close> of one row. A read of fewer bytes than asked for
  happens at the end of the stream only, which \<^verbatim>\<open>feof\<close> reports, so the "short read" error
  has no branch here.
\<close>

function flat_row_loop ::
  "nat \<Rightarrow> int \<Rightarrow> nat \<Rightarrow> int \<Rightarrow> flat_decode_state \<Rightarrow> byte list \<Rightarrow> byte list \<Rightarrow> byte list \<Rightarrow>
   (byte list \<times> byte list \<times> byte list) result" where
  "flat_row_loop channel w row x state buf fh px =
     (if x < w then
        (let max_pixels = sint (word_of_int (w - x) :: 32 word);
             num_to_read = FLATBUF - length buf;
             buf1 = buf @ take num_to_read fh;
             fh1 = drop num_to_read fh;
             comp_size = length buf1
         in if comp_size = 0 then Failed ''too little data''
            else
              bind_result (decode_flat buf1 comp_size max_pixels state)
                (\<lambda>(consumed, samples, state').
                   if \<not> 0 < length samples then Fault Assertion_failed
                   else if \<not> int (length samples) \<le> max_pixels + int EXPANSION
                   then Fault Assertion_failed
                   else if int (length samples) > max_pixels
                   then Failed ''excess pixels at end of row''
                   else
                     bind_result (write_samples channel w row x samples px)
                       (\<lambda>(x', px').
                          if consumed < 0 then Fault Undefined_behaviour
                          else flat_row_loop channel w row x' state'
                                 (drop (nat consumed) buf1) fh1 px')))
      else Ok (buf, fh, px))"
  by pat_completeness auto
termination
proof (relation "measure (\<lambda>(channel, w, row, x, state, buf, fh, px). nat (w - x))", goal_cases)
  case 1
  show ?case by simp
next
  case (2 channel w row x state buf fh px max_pixels num_to_read buf1 fh1 comp_size r consumed rest
      samples state' r' x' px')
  then have "write_samples channel w row x samples px = Ok (x', px')" and "0 < length samples"
    by auto
  with write_samples_x [of channel w row x samples px x' px'] 2(1) show ?case
    by simp
qed

declare flat_row_loop.simps [simp del]

definition flat_row ::
  "nat \<Rightarrow> int \<Rightarrow> int \<Rightarrow> byte list \<Rightarrow> byte list \<Rightarrow> byte list \<Rightarrow>
   (byte list \<times> byte list \<times> byte list) result" where
  "flat_row channel w y buf fh px =
     (let row = nat (3 * y * w) in
      bind_result
        (if 0 < length buf then Ok (hd buf, tl buf, fh)
         else (case fh of
                 [] \<Rightarrow> Failed ''failed to read first byte''
               | first # fh' \<Rightarrow> Ok (first, buf, fh')))
        (\<lambda>(first, buf1, fh1).
           if length px \<le> row + channel then Fault Undefined_behaviour
           else
             flat_row_loop channel w row 1 \<lparr>reg = 0, reg_size = 0, last = first\<rparr> buf1 fh1
               (px[row + channel := first])))"

function flat_rows ::
  "nat \<Rightarrow> int \<Rightarrow> int \<Rightarrow> int \<Rightarrow> byte list \<Rightarrow> byte list \<Rightarrow> byte list \<Rightarrow>
   (byte list \<times> byte list \<times> byte list) result" where
  "flat_rows channel w h y buf fh px =
     (if y < h then
        bind_result (flat_row channel w y buf fh px) (\<lambda>(buf', fh', px').
          if 2 ^ 31 \<le> y + 1 then Fault Undefined_behaviour
          else flat_rows channel w h (y + 1) buf' fh' px')
      else Ok (buf, fh, px))"
  by pat_completeness auto
termination
  by (relation "measure (\<lambda>(channel, w, h, y, buf, fh, px). nat (h - y))") auto

declare flat_rows.simps [simp del]

definition read_flat_data :: "byte list \<Rightarrow> image_info \<Rightarrow> (byte list \<times> image_info) result" where
  "read_flat_data fh info =
     (let w = sint (width info); h = sint (height info) in
      bind_result (flat_rows 0 w h 0 [] fh (pixels info)) (\<lambda>(buf0, fh0, px0).
      bind_result (flat_rows 1 w h 0 buf0 fh0 px0) (\<lambda>(buf1, fh1, px1).
      bind_result (flat_rows 2 w h 0 buf1 fh1 px1) (\<lambda>(buf2, fh2, px2).
        Ok (fh2, info\<lparr>pixels := px2\<rparr>)))))"

definition parse_bcflat :: "byte list \<Rightarrow> globals \<Rightarrow> fault + (image_info option \<times> globals)" where
  "parse_bcflat fh g =
     (case fread_item 8 fh of
        None \<Rightarrow> Inr (None, g)
      | Some (flags, fh1) \<Rightarrow>
          if flags ! 0 \<noteq> 0 \<or> flags ! 1 \<noteq> 0 \<or> flags ! 2 \<noteq> 0 \<or> flags ! 3 \<noteq> 0 \<or>
             flags ! 4 \<noteq> 0 \<or> flags ! 5 \<noteq> 0
          then Inr (None, g\<lparr>format_problem := Some ''reserved flags should be 0''\<rparr>)
          else if flags ! 6 \<noteq> 0x0d
          then Inr (None, g\<lparr>format_problem := Some ''unsupported dictionary size''\<rparr>)
          else if flags ! 7 \<noteq> 0x03
          then Inr (None, g\<lparr>format_problem := Some ''unsupported number of channels''\<rparr>)
          else
            (case read_u64_bigendian fh1 g of
               (w, fh2, g2) \<Rightarrow>
                 if w = - 1 then Inr (None, g2)
                 else
                   (case read_u64_bigendian fh2 g2 of
                      (h, fh3, g3) \<Rightarrow>
                        if h = - 1 then Inr (None, g3)
                        else if sint h < 1 \<or> sint w < 1
                        then Inr (None, g3\<lparr>format_problem := Some ''size must be positive''\<rparr>)
                        else if sint h > sint (size_limit g3) \<or> sint w > sint (size_limit g3)
                        then Inr (None,
                          g3\<lparr>format_problem := Some ''size too large compared to stack''\<rparr>)
                        else
                          (case alloc_pixels (num_bytes_of w h) of
                             Inl u \<Rightarrow> Inl u
                           | Inr px \<Rightarrow>
                               (case process_tagged_data fh3
                                   \<lparr>width = w, height = h, create_time = - 1, pixels = px\<rparr> g3 of
                                  (is_ok, fh4, info_footer, g4) \<Rightarrow>
                                    if \<not> is_ok then Inr (None, g4)
                                    else
                                      (case read_flat_data fh4 info_footer of
                                         Ok (fh5, info) \<Rightarrow> Inr (Some info, g4)
                                       | Failed msg \<Rightarrow>
                                           Inr (None, g4\<lparr>format_problem := Some msg\<rparr>)
                                       | Fault u \<Rightarrow> Inl u))))))"

subsection \<open>Dispatcher and startup\<close>

definition bcraw_magic :: "byte list" where
  "bcraw_magic = [0x00, 0x42, 0x43, 0x52, 0xc3, 0x84, 0x57, 0x0a]"

definition bcprog_magic :: "byte list" where
  "bcprog_magic = [0x42, 0x43, 0x50, 0x52, 0xc3, 0x96, 0x47, 0x0a]"

definition bcflat_magic :: "byte list" where
  "bcflat_magic = [0x42, 0x43, 0x46, 0x4c, 0xc3, 0x84, 0x54, 0x0a]"

text \<open>\<^verbatim>\<open>parse_image\<close> on the contents of the file, once it is open.\<close>

definition parse_image :: "byte list \<Rightarrow> globals \<Rightarrow> fault + (image_info option \<times> globals)" where
  "parse_image file g =
     (case fread_item 8 file of
        None \<Rightarrow> Inr (None, g)
      | Some (magic, fh) \<Rightarrow>
          (let g0 = g\<lparr>format_problem := None\<rparr> in
           if magic = bcraw_magic then parse_bcraw fh g0
           else if magic = bcprog_magic then parse_bcprog fh g0
           else if magic = bcflat_magic then parse_bcflat fh g0
           else Inr (None, g0)))"

text \<open>
  The integer square root, bit by bit from bit \<open>k - 1\<close> down: with \<open>k = 32\<close> it is the floor
  of the square root of any number below \<open>2^64\<close>.
\<close>

fun sqrt_bits :: "nat \<Rightarrow> nat \<Rightarrow> nat \<Rightarrow> nat" where
  "sqrt_bits 0 r n = r"
| "sqrt_bits (Suc k) r n =
     (if (r + 2 ^ k) * (r + 2 ^ k) \<le> n then sqrt_bits k (r + 2 ^ k) n else sqrt_bits k r n)"

definition floor_sqrt :: "nat \<Rightarrow> nat" where
  "floor_sqrt n = sqrt_bits 32 0 n"

text \<open>
  The start of \<^verbatim>\<open>main\<close>: \<open>rlim_cur\<close> is \<open>None\<close> when \<^verbatim>\<open>getrlimit\<close> fails and the soft limit
  of the stack size otherwise, \<^verbatim>\<open>RLIM_INFINITY\<close> being the all-ones value. The product
  \<^verbatim>\<open>rlim_cur * 1024\<close> wraps at 64 bits. \<^verbatim>\<open>(long)sqrt(...)\<close> is taken as the floor of the exact
  square root, which the double-precision computation gives for arguments below \<open>2^52\<close>.
\<close>

definition main_size_limit :: "u64 option \<Rightarrow> globals \<Rightarrow> globals" where
  "main_size_limit rlim_cur g =
     (case rlim_cur of
        None \<Rightarrow> g
      | Some c \<Rightarrow>
          if c \<noteq> - 1 then g\<lparr>size_limit := of_nat (floor_sqrt (unat (c * 1024 div 3)))\<rparr>
          else g)"

subsection \<open>The code table of the specification\<close>







section \<open>Properties of the tag section\<close>

lemma tag_length: "length tag_DATA = 4" "length tag_TIME = 4" "length tag_FRMT = 4"
  by (simp_all add: tag_DATA_def tag_TIME_def tag_FRMT_def)


lemma fread_item_append: "length a = n \<Longrightarrow> fread_item n (a @ rest) = Some (a, rest)"
  by (simp add: fread_item_def)

lemma read_u64_bigendian_append:
  "length szb = 8 \<Longrightarrow> read_u64_bigendian (szb @ rest) g = (u64_of_bytes szb, rest, g)"
  by (simp add: read_u64_bigendian_def fread_item_append)

lemma process_tagged_data_DATA:
  "process_tagged_data (tag_DATA @ rest) info g = (True, rest, info, g)"
  by (subst process_tagged_data.simps) (simp add: fread_item_append tag_length)







lemma u64_two: "u64_of_bytes [0, 0, 0, 0, 0, 0, 0, 2] = 2"
  by (simp add: u64_of_bytes_def)




section \<open>Properties of the raw decoder\<close>

lemma fread_into_ok:
  assumes "length d = n" "n \<le> length todo" "0 < n"
  shows "fread_into n msg (d @ fh') (length done) (done @ todo) =
    Ok (fh', done @ d @ drop n todo)"
  using assms by (auto simp: fread_into_def write_bytes_def)

lemma raw_singles_ok:
  assumes "0 \<le> col" "col \<le> w" "w < 2 ^ 31" "length d = 3 * nat (w - col)"
    "length d \<le> length todo"
  shows "raw_singles w col (length done) (d @ fh') (done @ todo) =
    Ok (length done + length d, fh', done @ d @ drop (length d) todo)"
  using assms
proof (induction "nat (w - col)" arbitrary: col d "done" todo)
  case 0
  then show ?case by (simp add: raw_singles.simps)
next
  case (Suc k)
  then have lt: "col < w" and k: "k = nat (w - (col + 1))" by linarith+
  have len: "length d = 3 + 3 * k" using Suc by linarith
  define d1 where "d1 = take 3 d"
  define d2 where "d2 = drop 3 d"
  have d: "d = d1 @ d2" and l1: "length d1 = 3" and l2: "length d2 = 3 * k"
    using len by (simp_all add: d1_def d2_def)
  have rd: "fread_into 3 ''short read of raw data'' (d1 @ d2 @ fh') (length done) (done @ todo)
      = Ok (d2 @ fh', done @ d1 @ drop 3 todo)"
    using l1 Suc.prems len by (intro fread_into_ok) auto
  have ih: "raw_singles w (col + 1) (length (done @ d1)) (d2 @ fh') ((done @ d1) @ drop 3 todo) =
      Ok (length (done @ d1) + length d2, fh', (done @ d1) @ d2 @ drop (length d2) (drop 3 todo))"
    using Suc.prems lt l2 len k by (intro Suc.hyps(1)) auto
  show ?case
    using lt Suc.prems(3) rd ih
    by (subst raw_singles.simps) (simp add: d l1 l2 add.commute)
qed

lemma raw_groups_ok:
  assumes "0 \<le> col" "col \<le> w" "w < 2 ^ 31" "length d = 3 * nat (w - col)"
    "length d \<le> length todo"
  shows "\<exists>d1 d2 col'. d = d1 @ d2 \<and> 0 \<le> col' \<and> col' \<le> w \<and> length d2 = 3 * nat (w - col') \<and>
    raw_groups w col (length done) (d @ fh') (done @ todo) =
      Ok (col', length done + length d1, d2 @ fh', done @ d1 @ drop (length d1) todo)"
  using assms
proof (induction "nat (w - col)" arbitrary: col d "done" todo rule: less_induct)
  case less
  show ?case
  proof (cases "col < w - 8")
    case False
    then have "raw_groups w col (length done) (d @ fh') (done @ todo) =
        Ok (col, length done, d @ fh', done @ todo)"
      using less.prems by (subst raw_groups.simps) simp
    then show ?thesis
      using less.prems by (intro exI [of _ "[]"] exI [of _ d] exI [of _ col]) simp
  next
    case True
    have len: "24 \<le> length d" "length d = 24 + 3 * nat (w - (col + 8))"
      using less.prems True by linarith+
    define a where "a = take 24 d"
    define b where "b = drop 24 d"
    have d: "d = a @ b" and la: "length a = 24" and lb: "length b = 3 * nat (w - (col + 8))"
      using len by (simp_all add: a_def b_def)
    have rd: "fread_into 24 ''short read of raw data'' (a @ b @ fh') (length done) (done @ todo)
        = Ok (b @ fh', done @ a @ drop 24 todo)"
      using la less.prems len by (intro fread_into_ok) auto
    have "\<exists>d1 d2 col'. b = d1 @ d2 \<and> 0 \<le> col' \<and> col' \<le> w \<and> length d2 = 3 * nat (w - col') \<and>
      raw_groups w (col + 8) (length (done @ a)) (b @ fh') ((done @ a) @ drop 24 todo) =
        Ok (col', length (done @ a) + length d1, d2 @ fh',
            (done @ a) @ d1 @ drop (length d1) (drop 24 todo))"
      using less.prems True lb len by (intro less.hyps) auto
    then obtain d1 d2 col' where b: "b = d1 @ d2" and c: "0 \<le> col'" "col' \<le> w"
      "length d2 = 3 * nat (w - col')" and
      r: "raw_groups w (col + 8) (length (done @ a)) (b @ fh') ((done @ a) @ drop 24 todo) =
        Ok (col', length (done @ a) + length d1, d2 @ fh',
            (done @ a) @ d1 @ drop (length d1) (drop 24 todo))"
      by blast
    have "raw_groups w col (length done) (d @ fh') (done @ todo) =
        Ok (col', length done + length (a @ d1), d2 @ fh',
            done @ (a @ d1) @ drop (length (a @ d1)) todo)"
      using True less.prems(1,3) rd r
      by (subst raw_groups.simps) (simp add: d la add.commute)
    then show ?thesis
      using c b d by (intro exI [of _ "a @ d1"] exI [of _ d2] exI [of _ col']) simp
  qed
qed

lemma raw_row_ok:
  assumes "0 \<le> w" "w < 2 ^ 31" "length d = 3 * nat w" "length d \<le> length todo"
  shows "bind_result (raw_groups w 0 (length done) (d @ fh') (done @ todo))
      (\<lambda>(col, p1, fh1, px1). bind_result (raw_singles w col p1 fh1 px1) f) =
    f (length done + length d, fh', done @ d @ drop (length d) todo)"
proof -
  obtain d1 d2 col' where d: "d = d1 @ d2" and c: "0 \<le> col'" "col' \<le> w"
    "length d2 = 3 * nat (w - col')" and
    r: "raw_groups w 0 (length done) (d @ fh') (done @ todo) =
      Ok (col', length done + length d1, d2 @ fh', done @ d1 @ drop (length d1) todo)"
    using raw_groups_ok [of 0 w d todo "done" fh'] assms by auto
  have "raw_singles w col' (length (done @ d1)) (d2 @ fh') ((done @ d1) @ drop (length d1) todo) =
      Ok (length (done @ d1) + length d2, fh',
          (done @ d1) @ d2 @ drop (length d2) (drop (length d1) todo))"
    using c assms d by (intro raw_singles_ok) auto
  then show ?thesis
    using r by (simp add: d ac_simps)
qed

lemma raw_rows_ok:
  assumes "0 \<le> row" "row \<le> h" "h < 2 ^ 31" "0 \<le> w" "w < 2 ^ 31"
    "length d = 3 * nat w * nat (h - row)" "length d \<le> length todo"
  shows "raw_rows w h row (length done) (d @ fh') (done @ todo) =
    Ok (fh', done @ d @ drop (length d) todo)"
  using assms
proof (induction "nat (h - row)" arbitrary: row d "done" todo)
  case 0
  then show ?case by (simp add: raw_rows.simps)
next
  case (Suc k)
  then have lt: "row < h" and k: "k = nat (h - (row + 1))" by linarith+
  have hr: "nat (h - row) = Suc k" using Suc by simp
  have len: "length d = 3 * nat w + 3 * nat w * k"
    using Suc.prems(6) unfolding hr by simp
  define a where "a = take (3 * nat w) d"
  define b where "b = drop (3 * nat w) d"
  have d: "d = a @ b" and la: "length a = 3 * nat w" and lb: "length b = 3 * nat w * k"
    using len by (simp_all add: a_def b_def)
  have ab: "length a + length b \<le> length todo"
    using Suc.prems(7) d by simp
  have ih: "raw_rows w h (row + 1) (length (done @ a)) (b @ fh') ((done @ a) @ drop (length a) todo) =
      Ok (fh', (done @ a) @ b @ drop (length b) (drop (length a) todo))"
  proof (rule Suc.hyps(1))
    show "k = nat (h - (row + 1))" by (fact k)
    show "length b = 3 * nat w * nat (h - (row + 1))" using lb k by simp
    show "length b \<le> length (drop (length a) todo)" using ab by simp
  qed (use Suc.prems lt in auto)
  have row: "bind_result (raw_groups w 0 (length done) (a @ b @ fh') (done @ todo))
      (\<lambda>(col, p1, fh1, px1). bind_result (raw_singles w col p1 fh1 px1) f) =
    f (length done + length a, b @ fh', done @ a @ drop (length a) todo)" for f
    using Suc.prems la len by (intro raw_row_ok) auto
  show ?case
    using lt Suc.prems(3) ih
    by (subst raw_rows.simps) (simp add: d row add.commute)
qed

lemma fread_item_length:
  "fread_item n fh = Some (a, fh') \<Longrightarrow> length fh' + n = length fh"
  by (auto simp: fread_item_def split: if_splits)

lemma process_tagged_data_info:
  "process_tagged_data fh info g = (is_ok, fh', info', g') \<Longrightarrow>
   width info' = width info \<and> height info' = height info \<and> pixels info' = pixels info"
proof (induction "length fh" arbitrary: fh info g rule: less_induct)
  case less
  show ?case
  proof (cases "fread_item 4 fh")
    case None
    with less.prems show ?thesis
      by (subst (asm) process_tagged_data.simps) auto
  next
    case (Some a)
    obtain ident fh1 where a: "a = (ident, fh1)" by (cases a)
    obtain sz fh2 g2 where r1: "read_u64_bigendian fh1 g = (sz, fh2, g2)"
      by (cases "read_u64_bigendian fh1 g")
    obtain t fh3 g3 where r2: "read_u64_bigendian fh2 g2 = (t, fh3, g3)"
      by (cases "read_u64_bigendian fh2 g2")
    have l1: "length fh1 < length fh"
      using fread_item_length [of 4 fh ident fh1] Some a by simp
    have l2: "length fh2 \<le> length fh1" "length fh3 \<le> length fh2"
      using r1 r2 by (auto dest: read_u64_bigendian_length)
    have time: "process_tagged_data fh3 (info\<lparr>create_time := t\<rparr>) g3 = (is_ok, fh', info', g') \<Longrightarrow>
        ?thesis"
      using less.hyps [of fh3 "info\<lparr>create_time := t\<rparr>" g3] l1 l2 by simp
    have frmt: "fread_item (unat sz) fh2 = Some (fmt_buf, fh4) \<Longrightarrow>
        process_tagged_data fh4 info (g2\<lparr>logging_fmt := fmt_buf @ [0]\<rparr>) = (is_ok, fh', info', g') \<Longrightarrow>
        ?thesis" for fmt_buf fh4
      using less.hyps [of fh4 info "g2\<lparr>logging_fmt := fmt_buf @ [0]\<rparr>"] l1 l2
        fread_item_length [of "unat sz" fh2 fmt_buf fh4] by simp
    from less.prems time frmt show ?thesis
      by (subst (asm) process_tagged_data.simps)
         (auto simp: Some a r1 r2 split: if_splits option.splits)
  qed
qed

lemma unat_3wh:
  assumes "3 * unat (w :: u64) * unat (h :: u64) < 2 ^ 31"
  shows "unat (3 * w * h) = 3 * unat w * unat h"
proof (cases "h = 0")
  case True
  then show ?thesis by simp
next
  case False
  then have "1 \<le> unat h"
    by (simp add: unat_gt_0 Suc_leI)
  then have "3 * unat w \<le> 3 * unat w * unat h"
    by simp
  with assms have w3: "3 * unat w < 2 ^ 31" by linarith
  have "unat (3 * w) = 3 * unat w"
    using w3 by (simp add: unat_word_ariths)
  then show ?thesis
    using assms by (simp add: unat_word_ariths)
qed

lemma sint_small: "unat (w :: u64) < 2 ^ 31 \<Longrightarrow> sint w = int (unat w)"
proof -
  assume a: "unat w < 2 ^ 31"
  have "uint w < 2 ^ 31"
    using a by (metis of_nat_less_numeral_power_cancel_iff uint_nat)
  then have "signed_take_bit 63 (uint w) = uint w"
    by (intro signed_take_bit_int_eq_self) (auto intro: order_less_le_trans order_trans [of _ 0])
  then show ?thesis
    by (simp add: sint_uint)
qed

lemma num_bytes_of_small:
  assumes "3 * unat w * unat h < 2 ^ 31"
  shows "num_bytes_of w h = int (3 * unat w * unat h)"
proof -
  have u: "uint (3 * w * h) = int (3 * unat w * unat h)"
    using unat_3wh [OF assms] by (metis uint_nat)
  have lt: "int (3 * unat w * unat h) < 2 ^ 31"
    using assms by (metis of_nat_less_numeral_power_cancel_iff)
  have "signed_take_bit 31 (int (3 * unat w * unat h)) = int (3 * unat w * unat h)"
    using lt by (intro signed_take_bit_int_eq_self) (auto intro: order_trans [of _ 0])
  then show ?thesis
    unfolding num_bytes_of_def by (simp add: signed_ucast_eq u)
qed

lemma read_raw_data_ok:
  assumes "unat (width info) < 2 ^ 31" "unat (height info) < 2 ^ 31"
    and "length payload = 3 * unat (width info) * unat (height info)"
    and "length (pixels info) = length payload"
  shows "read_raw_data (payload @ rest) info = Ok (rest, info\<lparr>pixels := payload\<rparr>)"
proof -
  have "raw_rows (sint (width info)) (sint (height info)) 0 (length ([] :: byte list))
      (payload @ rest) ([] @ pixels info) = Ok (rest, [] @ payload @ drop (length payload) (pixels info))"
  proof (rule raw_rows_ok)
    show "length payload = 3 * nat (sint (width info)) * nat (sint (height info) - 0)"
      using assms by (simp only: sint_small nat_int diff_zero)
    show "sint (height info) < 2 ^ 31" "sint (width info) < 2 ^ 31"
      using assms(1,2) by (simp_all only: sint_small of_nat_less_numeral_power_cancel_iff)
    show "0 \<le> sint (height info)" "0 \<le> sint (width info)"
      using assms(1,2) by (simp_all only: sint_small of_nat_0_le_iff)
  qed (use assms in simp_all)
  then show ?thesis
    using assms(4) by (simp add: read_raw_data_def)
qed

text \<open>
  C2 (amended): for a BCRAW stream with the flag bytes seven zeros then 8, a width and a
  height below \<open>2^31\<close> with \<open>3 * width * height < 2^31\<close>, a tag section that the tag parser
  accepts and at least \<open>3 * width * height\<close> payload bytes behind it, decoding succeeds and
  the raster is the first \<open>3 * width * height\<close> payload bytes, in stream order.
\<close>

theorem parse_bcraw_verbatim:
  assumes "length wb = 8" and "length hb = 8"
    and "unat (u64_of_bytes wb) < 2 ^ 31" and "unat (u64_of_bytes hb) < 2 ^ 31"
    and "3 * unat (u64_of_bytes wb) * unat (u64_of_bytes hb) < 2 ^ 31"
    and "process_tagged_data fh
           \<lparr>width = u64_of_bytes wb, height = u64_of_bytes hb, create_time = - 1,
            pixels = replicate (3 * unat (u64_of_bytes wb) * unat (u64_of_bytes hb)) 0\<rparr> g =
         (True, payload @ rest, info, g')"
    and "length payload = 3 * unat (u64_of_bytes wb) * unat (u64_of_bytes hb)"
  shows "parse_bcraw ([0, 0, 0, 0, 0, 0, 0, 8] @ wb @ hb @ fh) g =
    Inr (Some \<lparr>width = u64_of_bytes wb, height = u64_of_bytes hb,
               create_time = create_time info, pixels = payload\<rparr>, g')"
proof -
  define w where "w = u64_of_bytes wb"
  define h where "h = u64_of_bytes hb"
  note a = assms [folded w_def h_def]
  have nm: "w \<noteq> - 1" "h \<noteq> - 1"
    using a(3,4) by (auto simp: unsigned_minus_1_eq_mask mask_eq_exp_minus_1)
  have info: "width info = w" "height info = h"
    "pixels info = replicate (3 * unat w * unat h) 0"
    using process_tagged_data_info [OF a(6)] by simp_all
  have rd: "read_raw_data (payload @ rest) info = Ok (rest, info\<lparr>pixels := payload\<rparr>)"
    using a info by (intro read_raw_data_ok) simp_all
  have eq: "info\<lparr>pixels := payload\<rparr> =
      \<lparr>width = w, height = h, create_time = create_time info, pixels = payload\<rparr>"
    using info by simp
  have f: "fread_item 8 ([0, 0, 0, 0, 0, 0, 0, 8] @ wb @ hb @ fh) =
      Some ([0, 0, 0, 0, 0, 0, 0, 8], wb @ hb @ fh)"
    by (rule fread_item_append) simp
  have "\<not> int n < - 56 \<and> \<not> int n < 0 \<and> nat (int n) = n" for n
    by simp
  then have al: "alloc_pixels (num_bytes_of w h) = Inr (replicate (3 * unat w * unat h) 0)"
    unfolding alloc_pixels_def num_bytes_of_small [OF a(5)]
    by (simp only: if_False)
  show ?thesis
    unfolding parse_bcraw_def f
    using a(1,2) nm
    by (simp add: read_u64_bigendian_append al a(6) rd eq flip: w_def h_def)
qed

text \<open>
  C2, as the claim states it, at width \<open>2^64 - 1\<close> and height 0: the flags are correct, the
  tag section is \<^verbatim>\<open>DATA\<close> and the \<open>3 * width * height = 0\<close> payload bytes are there, yet the
  parser returns null, because the width equals the reader's failure value.
\<close>

theorem bcraw_sentinel_width_counterexample:
  "u64_of_bytes [0, 0, 0, 0, 0, 0, 0, 0] = 0 \<and>
   parse_bcraw ([0, 0, 0, 0, 0, 0, 0, 8] @ [255, 255, 255, 255, 255, 255, 255, 255] @
       [0, 0, 0, 0, 0, 0, 0, 0] @ tag_DATA) initial_globals =
     Inr (None, initial_globals)"
  by (simp add: parse_bcraw_def fread_item_def read_u64_bigendian_def u64_of_bytes_def)

theorem parse_bcraw_verbatim_witness:
  "parse_bcraw ([0, 0, 0, 0, 0, 0, 0, 8] @ [0, 0, 0, 0, 0, 0, 0, 2] @ [0, 0, 0, 0, 0, 0, 0, 1] @
      tag_DATA @ [1, 2, 3, 4, 5, 6] @ [9]) initial_globals =
   Inr (Some \<lparr>width = 2, height = 1, create_time = - 1, pixels = [1, 2, 3, 4, 5, 6]\<rparr>,
        initial_globals)"
proof -
  have w: "u64_of_bytes [0, 0, 0, 0, 0, 0, 0, 2] = 2" and h: "u64_of_bytes [0, 0, 0, 0, 0, 0, 0, 1] = 1"
    by (simp_all add: u64_of_bytes_def)
  have t: "process_tagged_data (tag_DATA @ [1, 2, 3, 4, 5, 6] @ [9])
      \<lparr>width = 2, height = 1, create_time = - 1, pixels = replicate 6 0\<rparr> initial_globals =
    (True, [1, 2, 3, 4, 5, 6] @ [9],
     \<lparr>width = 2, height = 1, create_time = - 1, pixels = replicate 6 0\<rparr>, initial_globals)"
    by (rule process_tagged_data_DATA)
  show ?thesis
    using parse_bcraw_verbatim [of "[0, 0, 0, 0, 0, 0, 0, 2]" "[0, 0, 0, 0, 0, 0, 0, 1]"
        "tag_DATA @ [1, 2, 3, 4, 5, 6] @ [9]" initial_globals "[1, 2, 3, 4, 5, 6]" "[9]"
        "\<lparr>width = 2, height = 1, create_time = - 1, pixels = replicate 6 0\<rparr>" initial_globals]
      t
    by (simp add: w h)
qed

text \<open>
  C4 at a BCRAW header of width \<open>0x55555556\<close> and height 1: the parser reaches its allocation
  with \<open>3 * width * height = 4294967298\<close>, which \<^verbatim>\<open>num_bytes\<close> holds as 2, and the first
  group of pixels read is stored beyond that raster.
\<close>

theorem parse_bcraw_wrapped_size:
  "u64_of_bytes [0, 0, 0, 0, 0x55, 0x55, 0x55, 0x56] = 0x55555556 \<and>
   u64_of_bytes [0, 0, 0, 0, 0, 0, 0, 1] = 1 \<and>
   3 * unat (0x55555556 :: u64) * unat (1 :: u64) = 4294967298 \<and>
   num_bytes_of 0x55555556 1 = 2 \<and>
   parse_bcraw ([0, 0, 0, 0, 0, 0, 0, 8] @ [0, 0, 0, 0, 0x55, 0x55, 0x55, 0x56] @
       [0, 0, 0, 0, 0, 0, 0, 1] @ tag_DATA @
       [1, 2, 3, 4, 5, 6, 7, 8, 9, 10, 11, 12, 13, 14, 15, 16, 17, 18, 19, 20, 21, 22, 23, 24])
     initial_globals = Inl Undefined_behaviour"
proof -
  have w: "u64_of_bytes [0, 0, 0, 0, 0x55, 0x55, 0x55, 0x56] = 0x55555556"
    and h: "u64_of_bytes [0, 0, 0, 0, 0, 0, 0, 1] = 1"
    by (simp_all add: u64_of_bytes_def)
  have n: "num_bytes_of 0x55555556 1 = 2"
    by (simp add: num_bytes_of_def)
  have al: "alloc_pixels 2 = Inr [0, 0]"
    by (simp add: alloc_pixels_def numeral_2_eq_2)
  have r: "read_raw_data fh \<lparr>width = 0x55555556, height = 1, create_time = - 1, pixels = [0, 0]\<rparr>
      = Fault Undefined_behaviour" if "length fh = 24" for fh
    using that
    by (auto simp: read_raw_data_def raw_rows.simps [of _ _ 0] raw_groups.simps [of _ 0]
        fread_into_def write_bytes_def)
  show ?thesis
    using process_tagged_data_DATA [of "[1, 2, 3, 4, 5, 6, 7, 8, 9, 10, 11, 12, 13, 14, 15, 16,
        17, 18, 19, 20, 21, 22, 23, 24]"
        "\<lparr>width = 0x55555556, height = 1, create_time = - 1, pixels = [0, 0]\<rparr>" initial_globals]
    by (simp add: w h n parse_bcraw_def fread_item_def read_u64_bigendian_def al r)
qed

theorem parse_bcraw_wrapped_size_witness:
  "num_bytes_of (u64_of_bytes [0, 0, 0, 0, 0x55, 0x55, 0x55, 0x56])
     (u64_of_bytes [0, 0, 0, 0, 0, 0, 0, 1]) = 2 \<and>
   parse_bcraw ([0, 0, 0, 0, 0, 0, 0, 8] @ [0, 0, 0, 0, 0x55, 0x55, 0x55, 0x56] @
       [0, 0, 0, 0, 0, 0, 0, 1] @ tag_DATA @
       [1, 2, 3, 4, 5, 6, 7, 8, 9, 10, 11, 12, 13, 14, 15, 16, 17, 18, 19, 20, 21, 22, 23, 24])
     initial_globals = Inl Undefined_behaviour"
  using parse_bcraw_wrapped_size by simp

section \<open>Properties of the progressive decoder\<close>

lemma u64_one: "u64_of_bytes [0, 0, 0, 0, 0, 0, 0, 1] = 1"
  by (simp add: u64_of_bytes_def)

lemma alloc_pixels_6: "alloc_pixels 6 = Inr [0, 0, 0, 0, 0, 0]"
  by (simp add: alloc_pixels_def eval_nat_numeral)

text \<open>
  C3 at an accepted BCPROG image of width 1 and height 2: the second pass reads its first
  row, row 2, before it tests \<^verbatim>\<open>row < height\<close>, and stores it at offset 6 of the 6-byte raster,
  at a row index that is not below the height.
\<close>

theorem parse_bcprog_height_2:
  "parse_bcprog ([0, 0, 0, 0, 0, 0, 1, 0xd8] @ [0, 0, 0, 0, 0, 0, 0, 1] @ [0, 0, 0, 0, 0, 0, 0, 2] @
      tag_DATA @ [7, 8, 9]) initial_globals = Inl Undefined_behaviour"
proof -
  have n: "num_bytes_of 1 2 = 6"
    by (simp add: num_bytes_of_def)
  have r: "read_prog_data [7, 8, 9] \<lparr>width = 1, height = 2, create_time = - 1,
      pixels = [0, 0, 0, 0, 0, 0]\<rparr> = Fault Undefined_behaviour"
    by (simp add: read_prog_data_def prog_pass4.simps [of _ _ 0] prog_pass4.simps [of _ _ 2]
        fread_into_def write_bytes_def)
  show ?thesis
    using process_tagged_data_DATA [of "[7, 8, 9]"
        "\<lparr>width = 1, height = 2, create_time = - 1, pixels = [0, 0, 0, 0, 0, 0]\<rparr>" initial_globals]
    by (simp add: u64_one u64_two n parse_bcprog_def fread_item_def read_u64_bigendian_def
        alloc_pixels_6 r)
qed

theorem parse_bcprog_height_2_witness:
  "sint (u64_of_bytes [0, 0, 0, 0, 0, 0, 0, 2]) = 2 \<and>
   parse_bcprog ([0, 0, 0, 0, 0, 0, 1, 0xd8] @ [0, 0, 0, 0, 0, 0, 0, 1] @ [0, 0, 0, 0, 0, 0, 0, 2] @
      tag_DATA @ [7, 8, 9]) initial_globals = Inl Undefined_behaviour"
  using parse_bcprog_height_2 by (simp add: u64_two)

text \<open>
  From a height of 3 on, the three passes stay inside the raster: they succeed on any
  stream of at least \<open>width * height\<close> bytes and read exactly that many.
\<close>

lemma fread_into_len:
  assumes "n \<le> length fh" "off + n \<le> length px"
  shows "\<exists>px'. fread_into n msg fh off px = Ok (drop n fh, px') \<and> length px' = length px"
  using assms by (auto simp: fread_into_def write_bytes_def)

lemma prog_pass4_in_range:
  assumes "0 \<le> row" "row < h" "0 < w" "length px = nat (3 * w * h)"
    "nat w * nat ((h - row + 3) div 4) \<le> length fh"
  shows "\<exists>px'. prog_pass4 w h row fh px = Ok (drop (nat w * nat ((h - row + 3) div 4)) fh, px') \<and>
    length px' = length px"
  using assms
proof (induction "nat (h - row)" arbitrary: row fh px rule: less_induct)
  case less
  have c: "nat ((h - row + 3) div 4) = Suc (nat ((h - (row + 4) + 3) div 4))"
    using less.prems(2) by linarith
  have "row * 3 * w + w \<le> 3 * w * h"
  proof -
    have "(row * 3 + 1) * w \<le> (3 * h) * w"
      using less.prems(2,3) by (intro mult_right_mono) auto
    then show ?thesis by (simp add: algebra_simps)
  qed
  then have off: "nat (row * 3 * w) + nat w \<le> length px"
    using less.prems(1,3,4) by (simp add: nat_add_distrib [symmetric] nat_le_eq_zle)
  have n: "nat w \<le> length fh"
    using less.prems(5) unfolding c by simp
  from fread_into_len [OF n off] obtain px1 where
    r: "fread_into (nat w) ''short read of row'' fh (nat (row * 3 * w)) px = Ok (drop (nat w) fh, px1)"
    and l1: "length px1 = length px"
    by blast
  show ?case
  proof (cases "row + 4 < h")
    case False
    then have "nat ((h - (row + 4) + 3) div 4) = 0"
      by simp
    with r l1 False show ?thesis
      by (subst prog_pass4.simps) (simp add: c)
  next
    case True
    have "\<exists>px'. prog_pass4 w h (row + 4) (drop (nat w) fh) px1 =
        Ok (drop (nat w * nat ((h - (row + 4) + 3) div 4)) (drop (nat w) fh), px') \<and>
        length px' = length px1"
    proof (rule less.hyps)
      show "nat w * nat ((h - (row + 4) + 3) div 4) \<le> length (drop (nat w) fh)"
        using less.prems(5) unfolding c by simp
    qed (use True less.prems l1 in auto)
    then obtain px' where
      ih: "prog_pass4 w h (row + 4) (drop (nat w) fh) px1 =
        Ok (drop (nat w * nat ((h - (row + 4) + 3) div 4)) (drop (nat w) fh), px')"
      and l': "length px' = length px1"
      by blast
    have d: "drop (nat w * nat ((h - (row + 4) + 3) div 4)) (drop (nat w) fh) =
        drop (nat w * nat ((h - row + 3) div 4)) fh"
      unfolding c by (simp add: add.commute)
    have "prog_pass4 w h row fh px = Ok (drop (nat w * nat ((h - row + 3) div 4)) fh, px')"
      using r True ih unfolding d by (subst prog_pass4.simps) simp
    with l' l1 show ?thesis
      by simp
  qed
qed

lemma prog_pass2_in_range:
  assumes "0 \<le> row" "row < h" "0 < w" "length px = nat (3 * w * h)"
    "nat w * nat ((h - row + 1) div 2) \<le> length fh"
  shows "\<exists>px'. prog_pass2 w h row fh px = Ok (drop (nat w * nat ((h - row + 1) div 2)) fh, px') \<and>
    length px' = length px"
  using assms
proof (induction "nat (h - row)" arbitrary: row fh px rule: less_induct)
  case less
  have c: "nat ((h - row + 1) div 2) = Suc (nat ((h - (row + 2) + 1) div 2))"
    using less.prems(2) by linarith
  have "row * 3 * w + w \<le> 3 * w * h"
  proof -
    have "(row * 3 + 1) * w \<le> (3 * h) * w"
      using less.prems(2,3) by (intro mult_right_mono) auto
    then show ?thesis by (simp add: algebra_simps)
  qed
  then have off: "nat (row * 3 * w) + nat w \<le> length px"
    using less.prems(1,3,4) by (simp add: nat_add_distrib [symmetric] nat_le_eq_zle)
  have n: "nat w \<le> length fh"
    using less.prems(5) unfolding c by simp
  from fread_into_len [OF n off] obtain px1 where
    r: "fread_into (nat w) ''short read of row'' fh (nat (row * 3 * w)) px = Ok (drop (nat w) fh, px1)"
    and l1: "length px1 = length px"
    by blast
  show ?case
  proof (cases "row + 2 < h")
    case False
    then have "nat ((h - (row + 2) + 1) div 2) = 0"
      by simp
    with r l1 False show ?thesis
      by (subst prog_pass2.simps) (simp add: c)
  next
    case True
    have "\<exists>px'. prog_pass2 w h (row + 2) (drop (nat w) fh) px1 =
        Ok (drop (nat w * nat ((h - (row + 2) + 1) div 2)) (drop (nat w) fh), px') \<and>
        length px' = length px1"
    proof (rule less.hyps)
      show "nat w * nat ((h - (row + 2) + 1) div 2) \<le> length (drop (nat w) fh)"
        using less.prems(5) unfolding c by simp
    qed (use True less.prems l1 in auto)
    then obtain px' where
      ih: "prog_pass2 w h (row + 2) (drop (nat w) fh) px1 =
        Ok (drop (nat w * nat ((h - (row + 2) + 1) div 2)) (drop (nat w) fh), px')"
      and l': "length px' = length px1"
      by blast
    have d: "drop (nat w * nat ((h - (row + 2) + 1) div 2)) (drop (nat w) fh) =
        drop (nat w * nat ((h - row + 1) div 2)) fh"
      unfolding c by (simp add: add.commute)
    have "prog_pass2 w h row fh px = Ok (drop (nat w * nat ((h - row + 1) div 2)) fh, px')"
      using r True ih unfolding d by (subst prog_pass2.simps) simp
    with l' l1 show ?thesis
      by simp
  qed
qed

lemma prog_passes_in_range:
  assumes "3 \<le> h" "0 < w" "length px = nat (3 * w * h)" "nat w * nat h \<le> length fh"
  shows "\<exists>px'.
    bind_result (prog_pass4 w h 0 fh px) (\<lambda>(fh1, px1).
    bind_result (prog_pass4 w h 2 fh1 px1) (\<lambda>(fh2, px2).
      prog_pass2 w h 1 fh2 px2)) = Ok (drop (nat w * nat h) fh, px') \<and>
    length px' = length px"
proof -
  define a where "a = nat ((h - 0 + 3) div 4)"
  define b where "b = nat ((h - 2 + 3) div 4)"
  define c where "c = nat ((h - 1 + 1) div 2)"
  have "(h - 0 + 3) div 4 + (h - 2 + 3) div 4 + (h - 1 + 1) div 2 = h"
    by presburger
  moreover have "0 \<le> (h - 0 + 3) div 4" "0 \<le> (h - 2 + 3) div 4" "0 \<le> (h - 1 + 1) div 2"
    using assms(1) by simp_all
  ultimately have sum: "a + b + c = nat h"
    unfolding a_def b_def c_def by (metis nat_add_distrib add_nonneg_nonneg)
  have le: "nat w * a \<le> length fh" "nat w * b \<le> length (drop (nat w * a) fh)"
    "nat w * c \<le> length (drop (nat w * b) (drop (nat w * a) fh))"
    using assms(4) unfolding sum [symmetric] by (simp_all add: algebra_simps)
  obtain px1 where p1: "prog_pass4 w h 0 fh px = Ok (drop (nat w * a) fh, px1)"
    and l1: "length px1 = length px"
    using prog_pass4_in_range [of 0 h w px fh] assms le(1) unfolding a_def by auto
  obtain px2 where p2: "prog_pass4 w h 2 (drop (nat w * a) fh) px1 =
      Ok (drop (nat w * b) (drop (nat w * a) fh), px2)"
    and l2: "length px2 = length px"
    using prog_pass4_in_range [of 2 h w px1 "drop (nat w * a) fh"] assms le(2) l1
    unfolding b_def by auto
  obtain px3 where p3: "prog_pass2 w h 1 (drop (nat w * b) (drop (nat w * a) fh)) px2 =
      Ok (drop (nat w * c) (drop (nat w * b) (drop (nat w * a) fh)), px3)"
    and l3: "length px3 = length px"
    using prog_pass2_in_range [of 1 h w px2 "drop (nat w * b) (drop (nat w * a) fh)"] assms le(3) l2
    unfolding c_def by auto
  have "nat w * c + (nat w * b + nat w * a) = nat w * nat h"
    unfolding sum [symmetric] by (simp add: algebra_simps)
  then show ?thesis
    using p1 p2 p3 l3 by simp
qed







section \<open>Properties of the entropy decoder and of the startup code\<close>

text \<open>\<open>floor_sqrt\<close> is the floor of the square root below \<open>2^64\<close>.\<close>

lemma sqrt_bits_floor:
  "r * r \<le> n \<Longrightarrow> n < (r + 2 ^ k) * (r + 2 ^ k) \<Longrightarrow>
   sqrt_bits k r n * sqrt_bits k r n \<le> n \<and> n < (sqrt_bits k r n + 1) * (sqrt_bits k r n + 1)"
proof (induction k arbitrary: r)
  case 0
  then show ?case by simp
next
  case (Suc k)
  have e: "r + 2 ^ k + 2 ^ k = r + 2 ^ Suc k"
    by simp
  show ?case
  proof (cases "(r + 2 ^ k) * (r + 2 ^ k) \<le> n")
    case True
    have "n < (r + 2 ^ k + 2 ^ k) * (r + 2 ^ k + 2 ^ k)"
      using Suc.prems(2) by (simp only: e)
    from Suc.IH [OF True this] True show ?thesis
      by simp
  next
    case False
    then have "n < (r + 2 ^ k) * (r + 2 ^ k)"
      by simp
    from Suc.IH [OF Suc.prems(1) this] False show ?thesis
      by simp
  qed
qed

lemma floor_sqrt_floor:
  assumes "n < 2 ^ 64"
  shows "floor_sqrt n * floor_sqrt n \<le> n \<and> n < (floor_sqrt n + 1) * (floor_sqrt n + 1)"
  unfolding floor_sqrt_def
  using assms by (intro sqrt_bits_floor) (simp_all add: power2_eq_square [symmetric] power_mult [symmetric])

text \<open>
  Under the initial ceiling of 26754 the dimensions that the header check of
  \<^verbatim>\<open>parse_bcflat\<close> lets through keep \<open>3 * width * height\<close> below \<open>2^31\<close>.
\<close>

lemma default_size_limit_safe:
  assumes "1 \<le> sint w" "sint w \<le> 26754" "1 \<le> sint h" "sint h \<le> 26754"
  shows "3 * sint (w :: u64) * sint (h :: u64) < 2 ^ 31"
proof -
  have "sint w * sint h \<le> 26754 * 26754"
    using assms by (intro mult_mono) auto
  then show ?thesis by simp
qed

lemma sqrt_bits_numeral:
  "sqrt_bits (numeral k) r n =
     (if (r + 2 ^ pred_numeral k) * (r + 2 ^ pred_numeral k) \<le> n
      then sqrt_bits (pred_numeral k) (r + 2 ^ pred_numeral k) n
      else sqrt_bits (pred_numeral k) r n)"
  by (simp add: numeral_eq_Suc)

lemma floor_sqrt_8MiB: "floor_sqrt 2863311530 = 53509"
  unfolding floor_sqrt_def
  by (simp add: sqrt_bits_numeral)

lemma floor_sqrt_default: "floor_sqrt (2 ^ 31 div 3) = 26754"
  unfolding floor_sqrt_def
  by (simp add: sqrt_bits_numeral)

lemma u64_37838: "u64_of_bytes [0, 0, 0, 0, 0, 0, 0x93, 0xCE] = 37838"
  by (simp add: u64_of_bytes_def)

text \<open>
  C9 at a stack-size limit of 8 MiB and a BCFLAT header of width and height 37838: the
  ceiling starts at 26754, the startup code sets it to
  \<open>floor (sqrt (8388608 * 1024 / 3)) = 53509\<close>, the header check then accepts the image
  (the decode goes on to the pixel data and fails there, the stream being at its end), and
  \<open>3 * width * height\<close> is not below \<open>2^31\<close>: \<^verbatim>\<open>num_bytes\<close> holds it as 175436.
\<close>

theorem main_raises_size_limit:
  "size_limit initial_globals = 26754 \<and>
   size_limit (main_size_limit (Some 8388608) initial_globals) = 53509 \<and>
   u64_of_bytes [0, 0, 0, 0, 0, 0, 0x93, 0xCE] = 37838 \<and>
   (2 :: nat) ^ 31 \<le> 3 * unat (37838 :: u64) * unat (37838 :: u64) \<and>
   num_bytes_of 37838 37838 = 175436 \<and>
   parse_bcflat ([0, 0, 0, 0, 0, 0, 0x0d, 3] @ [0, 0, 0, 0, 0, 0, 0x93, 0xCE] @
       [0, 0, 0, 0, 0, 0, 0x93, 0xCE] @ tag_DATA)
     (main_size_limit (Some 8388608) initial_globals) =
   Inr (None, main_size_limit (Some 8388608) initial_globals
          \<lparr>format_problem := Some ''failed to read first byte''\<rparr>)"
proof -
  have sl: "main_size_limit (Some 8388608) initial_globals = initial_globals\<lparr>size_limit := 53509\<rparr>"
    by (simp add: main_size_limit_def floor_sqrt_8MiB)
  have n: "num_bytes_of 37838 37838 = 175436"
    by (simp add: num_bytes_of_def)
  have al: "alloc_pixels 175436 = Inr (replicate 175436 0)"
    by (simp add: alloc_pixels_def)
  have rd: "read_flat_data [] \<lparr>width = 37838, height = 37838, create_time = - 1,
      pixels = replicate 175436 0\<rparr> = Failed ''failed to read first byte''"
    by (simp add: read_flat_data_def flat_rows.simps [of _ _ _ 0] flat_row_def)
  have p: "parse_bcflat ([0, 0, 0, 0, 0, 0, 0x0d, 3] @ [0, 0, 0, 0, 0, 0, 0x93, 0xCE] @
       [0, 0, 0, 0, 0, 0, 0x93, 0xCE] @ tag_DATA) (initial_globals\<lparr>size_limit := 53509\<rparr>) =
     Inr (None, initial_globals\<lparr>size_limit := 53509,
       format_problem := Some ''failed to read first byte''\<rparr>)"
    using process_tagged_data_DATA [of "[]"
        "\<lparr>width = 37838, height = 37838, create_time = - 1, pixels = replicate 175436 0\<rparr>"
        "initial_globals\<lparr>size_limit := 53509\<rparr>"]
    by (simp add: parse_bcflat_def fread_item_def read_u64_bigendian_def u64_37838 n al rd)
  show ?thesis
    unfolding sl using p by (simp add: n u64_37838 initial_globals_def)
qed


theorem main_raises_size_limit_witness:
  "sint (size_limit (main_size_limit (Some 8388608) initial_globals)) = 53509 \<and>
   sint (37838 :: u64) \<le> 53509 \<and>
   num_bytes_of 37838 37838 < 3 * 37838 * 37838"
  using main_raises_size_limit by simp

text \<open>
  C8 at a BCFLAT file of width 2 and height 1 whose three rows are a literal byte and the
  10-bit codeword \<^verbatim>\<open>1110000000\<close> in two bytes: the whole file of 45 bytes decodes, and cut
  after 44 bytes the last call of the decoder has one byte of compressed data, matches no
  codeword in it and returns no sample, so that \<^verbatim>\<open>assert(num_pixels > 0)\<close> fails.
\<close>

theorem truncated_bcflat_assertion:
  "parse_image (bcflat_magic @ [0, 0, 0, 0, 0, 0, 0x0d, 3] @ [0, 0, 0, 0, 0, 0, 0, 2] @
      [0, 0, 0, 0, 0, 0, 0, 1] @ tag_DATA @
      [0x10, 0xE0, 0x00, 0x20, 0xE0, 0x00, 0x30, 0xE0, 0x00]) initial_globals =
     Inr (Some \<lparr>width = 2, height = 1, create_time = - 1, pixels = [16, 32, 48, 24, 40, 56]\<rparr>,
          initial_globals) \<and>
   parse_image (bcflat_magic @ [0, 0, 0, 0, 0, 0, 0x0d, 3] @ [0, 0, 0, 0, 0, 0, 0, 2] @
      [0, 0, 0, 0, 0, 0, 0, 1] @ tag_DATA @
      [0x10, 0xE0, 0x00, 0x20, 0xE0, 0x00, 0x30, 0xE0]) initial_globals =
     Inl Assertion_failed"
  by code_simp

theorem truncated_bcflat_assertion_witness:
  "parse_image (bcflat_magic @ [0, 0, 0, 0, 0, 0, 0x0d, 3] @ [0, 0, 0, 0, 0, 0, 0, 2] @
      [0, 0, 0, 0, 0, 0, 0, 1] @ tag_DATA @
      [0x10, 0xE0, 0x00, 0x20, 0xE0, 0x00, 0x30, 0xE0]) initial_globals =
     Inl Assertion_failed"
  using truncated_bcflat_assertion by simp

section \<open>The code table\<close>













































































section \<open>Refill chunks\<close>

lemma decode_flat_refill_100:
  "decode_flat
     [0x3E, 0x7C, 0xF9, 0xF3, 0xE7, 0xCF, 0x9F, 0x3E, 0x7C, 0xF9, 0xF3, 0xE7, 0xCF,
      0x9F, 0x3E, 0x7C, 0xF9, 0xF3, 0xE7, 0xCF, 0x9F, 0x3E, 0x7C, 0xF9, 0xF3, 0xE7,
      0xCF, 0x9F, 0x3E, 0x7C, 0xF9, 0xF3, 0xE7, 0xCF, 0x9F, 0x3E, 0x7C, 0xF9, 0xF3,
      0xE7, 0xCF, 0x9F, 0x3E, 0x7C, 0xF9, 0xF3, 0xE7, 0xCF, 0x9F, 0x3E, 0x7C, 0xF9,
      0xF3, 0xE7, 0xCF, 0x9F, 0x3E, 0x7C, 0xF9, 0xF3, 0xE7, 0xCF, 0x9F, 0x3E, 0x7C,
      0xF9, 0xF3, 0xE7, 0xCF, 0x9F, 0x3E, 0x7C, 0xF9, 0xF3, 0xE7, 0xCF, 0x9F, 0x3E,
      0x7C, 0xF9, 0xF3, 0xE7, 0xCF, 0x9F, 0x3E, 0x7C, 0xF9, 0xF3, 0xE7, 0xCF, 0x9F,
      0x3E, 0x7C, 0xF9, 0xF3, 0xE7, 0xCF, 0x9F, 0x3E, 0x7C]
     100 999 \<lparr>reg = 0, reg_size = 0, last = 5\<rparr> = Fault Undefined_behaviour"
  by code_simp

lemma decode_flat_refill_50_first:
  "decode_flat
     [0x3E, 0x7C, 0xF9, 0xF3, 0xE7, 0xCF, 0x9F, 0x3E, 0x7C, 0xF9, 0xF3, 0xE7, 0xCF,
      0x9F, 0x3E, 0x7C, 0xF9, 0xF3, 0xE7, 0xCF, 0x9F, 0x3E, 0x7C, 0xF9, 0xF3, 0xE7,
      0xCF, 0x9F, 0x3E, 0x7C, 0xF9, 0xF3, 0xE7, 0xCF, 0x9F, 0x3E, 0x7C, 0xF9, 0xF3,
      0xE7, 0xCF, 0x9F, 0x3E, 0x7C, 0xF9, 0xF3, 0xE7, 0xCF, 0x9F, 0x3E]
     50 999 \<lparr>reg = 0, reg_size = 0, last = 5\<rparr> =
   Ok (50, replicate 456 5, \<lparr>reg = 0, reg_size = 1, last = 5\<rparr>)"
  by code_simp

lemma decode_flat_refill_50_second:
  "decode_flat
     [0x7C, 0xF9, 0xF3, 0xE7, 0xCF, 0x9F, 0x3E, 0x7C, 0xF9, 0xF3, 0xE7, 0xCF, 0x9F,
      0x3E, 0x7C, 0xF9, 0xF3, 0xE7, 0xCF, 0x9F, 0x3E, 0x7C, 0xF9, 0xF3, 0xE7, 0xCF,
      0x9F, 0x3E, 0x7C, 0xF9, 0xF3, 0xE7, 0xCF, 0x9F, 0x3E, 0x7C, 0xF9, 0xF3, 0xE7,
      0xCF, 0x9F, 0x3E, 0x7C, 0xF9, 0xF3, 0xE7, 0xCF, 0x9F, 0x3E, 0x7C]
     50 (999 - 456) \<lparr>reg = 0, reg_size = 1, last = 5\<rparr> =
   Ok (50, replicate 456 5, \<lparr>reg = 0, reg_size = 2, last = 5\<rparr>)"
  by code_simp

lemma parse_image_refill_100:
  "parse_image (bcflat_magic @ [0, 0, 0, 0, 0, 0, 0x0d, 3] @ [0, 0, 0, 0, 0, 0, 0x03, 0xE8] @
     [0, 0, 0, 0, 0, 0, 0, 1] @ tag_DATA @ [5] @
     [0x3E, 0x7C, 0xF9, 0xF3, 0xE7, 0xCF, 0x9F, 0x3E, 0x7C, 0xF9, 0xF3, 0xE7, 0xCF,
      0x9F, 0x3E, 0x7C, 0xF9, 0xF3, 0xE7, 0xCF, 0x9F, 0x3E, 0x7C, 0xF9, 0xF3, 0xE7,
      0xCF, 0x9F, 0x3E, 0x7C, 0xF9, 0xF3, 0xE7, 0xCF, 0x9F, 0x3E, 0x7C, 0xF9, 0xF3,
      0xE7, 0xCF, 0x9F, 0x3E, 0x7C, 0xF9, 0xF3, 0xE7, 0xCF, 0x9F, 0x3E, 0x7C, 0xF9,
      0xF3, 0xE7, 0xCF, 0x9F, 0x3E, 0x7C, 0xF9, 0xF3, 0xE7, 0xCF, 0x9F, 0x3E, 0x7C,
      0xF9, 0xF3, 0xE7, 0xCF, 0x9F, 0x3E, 0x7C, 0xF9, 0xF3, 0xE7, 0xCF, 0x9F, 0x3E,
      0x7C, 0xF9, 0xF3, 0xE7, 0xCF, 0x9F, 0x3E, 0x7C, 0xF9, 0xF3, 0xE7, 0xCF, 0x9F,
      0x3E, 0x7C, 0xF9, 0xF3, 0xE7, 0xCF, 0x9F, 0x3E, 0x7C])
     initial_globals = Inl Undefined_behaviour"
  by code_simp

text \<open>
  C7 at 100 compressed bytes that repeat the codeword \<^verbatim>\<open>0011111\<close> (a run of 8), in a row of
  width 1000 that starts with the sample 5. Given to the decoder as one refill of 100 bytes
  (what \<^verbatim>\<open>read_flat_data\<close> does on a file with this row), the 102nd codeword stores beyond
  the \<open>EXPANSION * (FLATBUF + 1) = 808\<close> bytes of \<^verbatim>\<open>uncomp_buf\<close>. Given as two refills of 50
  bytes, with the state of the first call carried into the second, the same bytes decode to
  456 and 456 samples.
\<close>

theorem decode_flat_chunking_differs:
  "decode_flat
     [0x3E, 0x7C, 0xF9, 0xF3, 0xE7, 0xCF, 0x9F, 0x3E, 0x7C, 0xF9, 0xF3, 0xE7, 0xCF,
      0x9F, 0x3E, 0x7C, 0xF9, 0xF3, 0xE7, 0xCF, 0x9F, 0x3E, 0x7C, 0xF9, 0xF3, 0xE7,
      0xCF, 0x9F, 0x3E, 0x7C, 0xF9, 0xF3, 0xE7, 0xCF, 0x9F, 0x3E, 0x7C, 0xF9, 0xF3,
      0xE7, 0xCF, 0x9F, 0x3E, 0x7C, 0xF9, 0xF3, 0xE7, 0xCF, 0x9F, 0x3E, 0x7C, 0xF9,
      0xF3, 0xE7, 0xCF, 0x9F, 0x3E, 0x7C, 0xF9, 0xF3, 0xE7, 0xCF, 0x9F, 0x3E, 0x7C,
      0xF9, 0xF3, 0xE7, 0xCF, 0x9F, 0x3E, 0x7C, 0xF9, 0xF3, 0xE7, 0xCF, 0x9F, 0x3E,
      0x7C, 0xF9, 0xF3, 0xE7, 0xCF, 0x9F, 0x3E, 0x7C, 0xF9, 0xF3, 0xE7, 0xCF, 0x9F,
      0x3E, 0x7C, 0xF9, 0xF3, 0xE7, 0xCF, 0x9F, 0x3E, 0x7C]
     100 999 \<lparr>reg = 0, reg_size = 0, last = 5\<rparr> = Fault Undefined_behaviour \<and>
   decode_flat
     [0x3E, 0x7C, 0xF9, 0xF3, 0xE7, 0xCF, 0x9F, 0x3E, 0x7C, 0xF9, 0xF3, 0xE7, 0xCF,
      0x9F, 0x3E, 0x7C, 0xF9, 0xF3, 0xE7, 0xCF, 0x9F, 0x3E, 0x7C, 0xF9, 0xF3, 0xE7,
      0xCF, 0x9F, 0x3E, 0x7C, 0xF9, 0xF3, 0xE7, 0xCF, 0x9F, 0x3E, 0x7C, 0xF9, 0xF3,
      0xE7, 0xCF, 0x9F, 0x3E, 0x7C, 0xF9, 0xF3, 0xE7, 0xCF, 0x9F, 0x3E]
     50 999 \<lparr>reg = 0, reg_size = 0, last = 5\<rparr> =
   Ok (50, replicate 456 5, \<lparr>reg = 0, reg_size = 1, last = 5\<rparr>) \<and>
   decode_flat
     [0x7C, 0xF9, 0xF3, 0xE7, 0xCF, 0x9F, 0x3E, 0x7C, 0xF9, 0xF3, 0xE7, 0xCF, 0x9F,
      0x3E, 0x7C, 0xF9, 0xF3, 0xE7, 0xCF, 0x9F, 0x3E, 0x7C, 0xF9, 0xF3, 0xE7, 0xCF,
      0x9F, 0x3E, 0x7C, 0xF9, 0xF3, 0xE7, 0xCF, 0x9F, 0x3E, 0x7C, 0xF9, 0xF3, 0xE7,
      0xCF, 0x9F, 0x3E, 0x7C, 0xF9, 0xF3, 0xE7, 0xCF, 0x9F, 0x3E, 0x7C]
     50 (999 - 456) \<lparr>reg = 0, reg_size = 1, last = 5\<rparr> =
   Ok (50, replicate 456 5, \<lparr>reg = 0, reg_size = 2, last = 5\<rparr>) \<and>
   parse_image (bcflat_magic @ [0, 0, 0, 0, 0, 0, 0x0d, 3] @ [0, 0, 0, 0, 0, 0, 0x03, 0xE8] @
     [0, 0, 0, 0, 0, 0, 0, 1] @ tag_DATA @ [5] @
     [0x3E, 0x7C, 0xF9, 0xF3, 0xE7, 0xCF, 0x9F, 0x3E, 0x7C, 0xF9, 0xF3, 0xE7, 0xCF,
      0x9F, 0x3E, 0x7C, 0xF9, 0xF3, 0xE7, 0xCF, 0x9F, 0x3E, 0x7C, 0xF9, 0xF3, 0xE7,
      0xCF, 0x9F, 0x3E, 0x7C, 0xF9, 0xF3, 0xE7, 0xCF, 0x9F, 0x3E, 0x7C, 0xF9, 0xF3,
      0xE7, 0xCF, 0x9F, 0x3E, 0x7C, 0xF9, 0xF3, 0xE7, 0xCF, 0x9F, 0x3E, 0x7C, 0xF9,
      0xF3, 0xE7, 0xCF, 0x9F, 0x3E, 0x7C, 0xF9, 0xF3, 0xE7, 0xCF, 0x9F, 0x3E, 0x7C,
      0xF9, 0xF3, 0xE7, 0xCF, 0x9F, 0x3E, 0x7C, 0xF9, 0xF3, 0xE7, 0xCF, 0x9F, 0x3E,
      0x7C, 0xF9, 0xF3, 0xE7, 0xCF, 0x9F, 0x3E, 0x7C, 0xF9, 0xF3, 0xE7, 0xCF, 0x9F,
      0x3E, 0x7C, 0xF9, 0xF3, 0xE7, 0xCF, 0x9F, 0x3E, 0x7C])
     initial_globals = Inl Undefined_behaviour"
  by (intro conjI decode_flat_refill_100 decode_flat_refill_50_first
      decode_flat_refill_50_second parse_image_refill_100)

theorem decode_flat_chunking_differs_witness:
  "decode_flat
     [0x3E, 0x7C, 0xF9, 0xF3, 0xE7, 0xCF, 0x9F, 0x3E, 0x7C, 0xF9, 0xF3, 0xE7, 0xCF,
      0x9F, 0x3E, 0x7C, 0xF9, 0xF3, 0xE7, 0xCF, 0x9F, 0x3E, 0x7C, 0xF9, 0xF3, 0xE7,
      0xCF, 0x9F, 0x3E, 0x7C, 0xF9, 0xF3, 0xE7, 0xCF, 0x9F, 0x3E, 0x7C, 0xF9, 0xF3,
      0xE7, 0xCF, 0x9F, 0x3E, 0x7C, 0xF9, 0xF3, 0xE7, 0xCF, 0x9F, 0x3E, 0x7C, 0xF9,
      0xF3, 0xE7, 0xCF, 0x9F, 0x3E, 0x7C, 0xF9, 0xF3, 0xE7, 0xCF, 0x9F, 0x3E, 0x7C,
      0xF9, 0xF3, 0xE7, 0xCF, 0x9F, 0x3E, 0x7C, 0xF9, 0xF3, 0xE7, 0xCF, 0x9F, 0x3E,
      0x7C, 0xF9, 0xF3, 0xE7, 0xCF, 0x9F, 0x3E, 0x7C, 0xF9, 0xF3, 0xE7, 0xCF, 0x9F,
      0x3E, 0x7C, 0xF9, 0xF3, 0xE7, 0xCF, 0x9F, 0x3E, 0x7C]
     100 999 \<lparr>reg = 0, reg_size = 0, last = 5\<rparr> \<noteq>
   Ok (100, replicate 912 5, \<lparr>reg = 0, reg_size = 2, last = 5\<rparr>)"
  using decode_flat_chunking_differs by simp

end
